theory Spec2Isabelle
  imports Complex_Main
begin

section \<open>Python values and failures\<close>

text \<open>
  The exceptions that the modelled functions of \<^verbatim>\<open>datamgr/io.py\<close> and
  \<^verbatim>\<open>datamgr/io2.py\<close> can raise. The source defines no exception class of its own:
  a missing dictionary or header key raises \<^verbatim>\<open>KeyError\<close>, a list index out of range
  raises \<^verbatim>\<open>IndexError\<close>, arithmetic on a string or a bad format argument raises
  \<^verbatim>\<open>TypeError\<close>, and the FITS library raises \<^verbatim>\<open>IOError\<close> for a file that is
  missing on read or present on an unforced write.
\<close>

datatype error = KeyError string | IndexError | TypeError | IOError

text \<open>Sequencing of a step that may raise.\<close>

definition ebind :: "error + 'a \<Rightarrow> ('a \<Rightarrow> error + 'b) \<Rightarrow> error + 'b" where
  "ebind m f = (case m of Inl e \<Rightarrow> Inl e | Inr x \<Rightarrow> f x)"

text \<open>\<^verbatim>\<open>xs[i]\<close> for a Python integer index: a negative index counts from the end.\<close>

definition py_get :: "'a list \<Rightarrow> int \<Rightarrow> error + 'a" where
  "py_get xs i =
     (if 0 \<le> i \<and> i < int (length xs) then Inr (xs ! nat i)
      else if i < 0 \<and> - int (length xs) \<le> i then Inr (xs ! nat (int (length xs) + i))
      else Inl IndexError)"

text \<open>\<^verbatim>\<open>d[k]\<close> on a dictionary or a FITS header.\<close>

definition getkey :: "string \<Rightarrow> 'v option \<Rightarrow> error + 'v" where
  "getkey k v = (case v of None \<Rightarrow> Inl (KeyError k) | Some x \<Rightarrow> Inr x)"

text \<open>A loop whose body may raise: the first exception ends it.\<close>

fun fold_err :: "('i \<Rightarrow> 's \<Rightarrow> error + 's) \<Rightarrow> 'i list \<Rightarrow> 's \<Rightarrow> error + 's" where
  "fold_err f [] s = Inr s"
| "fold_err f (x # xs) s = (case f x s of Inl e \<Rightarrow> Inl e | Inr s' \<Rightarrow> fold_err f xs s')"

section \<open>Strings\<close>

text \<open>\<^verbatim>\<open>str(n)\<close> for a non-negative integer: its decimal digits.\<close>

definition digit_char :: "nat \<Rightarrow> char" where
  "digit_char d = ''0123456789'' ! d"

fun str_nat :: "nat \<Rightarrow> string" where
  "str_nat n = (if n < 10 then [digit_char n] else str_nat (n div 10) @ [digit_char (n mod 10)])"

declare str_nat.simps [simp del]

text \<open>\<^verbatim>\<open>s.split(c)\<close>: the tokens between the occurrences of \<open>c\<close>; never an empty list.\<close>

fun split :: "char \<Rightarrow> string \<Rightarrow> string list" where
  "split c [] = [[]]"
| "split c (x # xs) =
     (if x = c then [] # split c xs
      else (let ts = split c xs in (x # hd ts) # tl ts))"

text \<open>
  \<^verbatim>\<open>s.rfind(sub)\<close>: the highest index at which \<open>sub\<close> occurs in \<open>s\<close>, and \<open>-1\<close>
  when it occurs nowhere.
\<close>

definition occurs_at :: "string \<Rightarrow> string \<Rightarrow> nat \<Rightarrow> bool" where
  "occurs_at s sub i = (take (length sub) (drop i s) = sub)"

fun rfind_from :: "string \<Rightarrow> string \<Rightarrow> nat \<Rightarrow> int" where
  "rfind_from s sub 0 = (if occurs_at s sub 0 then 0 else - 1)"
| "rfind_from s sub (Suc i) =
     (if occurs_at s sub (Suc i) then int (Suc i) else rfind_from s sub i)"

definition rfind :: "string \<Rightarrow> string \<Rightarrow> int" where
  "rfind s sub = rfind_from s sub (length s)"

text \<open>\<^verbatim>\<open>s[:i]\<close>: a negative bound counts from the end, and the slice is clamped.\<close>

definition slice_to :: "'a list \<Rightarrow> int \<Rightarrow> 'a list" where
  "slice_to s i = (if i < 0 then take (nat (int (length s) + i)) s else take (nat i) s)"

text \<open>\<^verbatim>\<open>s.strip()\<close>: leading and trailing whitespace removed.\<close>

definition is_space :: "char \<Rightarrow> bool" where
  "is_space c = (c \<in> set [CHR '' '', CHR 0x09, CHR 0x0A, CHR 0x0B, CHR 0x0C, CHR 0x0D])"

definition strip :: "string \<Rightarrow> string" where
  "strip s = rev (dropWhile is_space (rev (dropWhile is_space s)))"

section \<open>FITS files\<close>

text \<open>
  A header value is a number, a string or a logical. Numbers stand for Python's integers
  and floats alike and are exact rationals here: rounding of floating-point arithmetic
  and of the header's decimal text is outside this model.
\<close>

datatype hval = HNum rat | HStr string | HBool bool

text \<open>The operand of an arithmetic operator: a string raises, a logical counts as 0 or 1.\<close>

definition num_of :: "hval \<Rightarrow> error + rat" where
  "num_of v = (case v of HNum x \<Rightarrow> Inr x | HBool b \<Rightarrow> Inr (of_bool b) | HStr s \<Rightarrow> Inl TypeError)"

text \<open>
  An array is its shape and its samples in storage order; the sample type is left open,
  so a sample is carried as it is. \<open>bitpix\<close> stands for the array's dtype.
\<close>

record 'a ndarray =
  shape :: "nat list"
  bitpix :: int
  elems :: "'a list"

type_synonym header = "string \<rightharpoonup> hval"

text \<open>A file holds one primary HDU: the array and the header cards, looked up by key.\<close>

record 'a hdu =
  data :: "'a ndarray"
  header :: header

type_synonym 'a filesys = "string \<rightharpoonup> 'a hdu"

text \<open>
  \<^verbatim>\<open>fits.PrimaryHDU(data)\<close>: the header that describes the array. FITS numbers the
  axes from the fastest one, so \<^verbatim>\<open>NAXIS1\<close> is the length of the last array axis.
\<close>

definition naxis_cards :: "nat list \<Rightarrow> header" where
  "naxis_cards shp =
     map_of (map (\<lambda>i. (''NAXIS'' @ str_nat (i + 1), HNum (of_nat (rev shp ! i)))) [0..<length shp])"

definition PrimaryHDU :: "'a ndarray \<Rightarrow> 'a hdu" where
  "PrimaryHDU d =
     \<lparr>data = d,
      header = (naxis_cards (shape d))
        (''SIMPLE'' \<mapsto> HBool True, ''BITPIX'' \<mapsto> HNum (of_int (bitpix d)),
         ''NAXIS'' \<mapsto> HNum (of_nat (length (shape d))), ''EXTEND'' \<mapsto> HBool True)\<rparr>"

text \<open>\<^verbatim>\<open>fits.getdata(fname)\<close> and \<^verbatim>\<open>fits.getheader(fname)\<close>.\<close>

definition fits_open :: "'a filesys \<Rightarrow> string \<Rightarrow> error + 'a hdu" where
  "fits_open fs fname = (case fs fname of None \<Rightarrow> Inl IOError | Some f \<Rightarrow> Inr f)"

section \<open>The ndArch reader\<close>

text \<open>
  The dictionary \<^verbatim>\<open>infodict\<close>, one field per key; a key that is absent is \<open>None\<close>.
  The key \<^verbatim>\<open>'class'\<close> is the field \<open>class_name\<close>.
\<close>

record infodict =
  filename :: "string option"
  class_name :: "string option"
  version :: "string option"
  coeff0 :: "hval option"
  coeff1 :: "hval option"
  nwave :: "hval option"
  fluxunit :: "hval option"
  par_names :: "hval list option"
  par_units :: "hval list option"
  par_axistype :: "string list option"

text \<open>Lines 54 to 56: class and version from the file name.\<close>

definition fn_ROOT :: "string \<Rightarrow> string" where
  "fn_ROOT fname = slice_to fname (rfind fname ''.fits'')"

definition fn_CLASS :: "string \<Rightarrow> error + string" where
  "fn_CLASS fname = py_get (split CHR ''-'' (fn_ROOT fname)) (- 2)"

definition fn_VERSION :: "string \<Rightarrow> error + string" where
  "fn_VERSION fname = py_get (split CHR ''-'' (fn_ROOT fname)) (- 1)"

text \<open>The key families of one axis, and the test that a whole family is in the header.\<close>

definition pv_base :: "string \<Rightarrow> nat \<Rightarrow> string list" where
  "pv_base ax L = map (\<lambda>j. ''PV'' @ ax @ ''_'' @ str_nat (j + 1)) [0..<L]"

definition ps_base :: "string \<Rightarrow> nat \<Rightarrow> string list" where
  "ps_base ax L = map (\<lambda>j. ''PS'' @ ax @ ''_'' @ str_nat (j + 1)) [0..<L]"

definition n_base :: "string \<Rightarrow> nat \<Rightarrow> string list" where
  "n_base ax L = map (\<lambda>j. ''N'' @ ax @ ''_'' @ str_nat (j + 1)) [0..<L]"

definition key_in :: "string \<Rightarrow> header \<Rightarrow> bool" where
  "key_in k h = (h k \<noteq> None)"

text \<open>\<^verbatim>\<open>n.asarray([k in header for k in base]).prod() > 0\<close>\<close>

definition family_test :: "header \<Rightarrow> string list \<Rightarrow> bool" where
  "family_test h base = (0 < prod_list (map (\<lambda>k. if key_in k h then 1 else (0::nat)) base))"

text \<open>
  \<^verbatim>\<open>n.asarray([header[k] for k in base])\<close>, reached only when every key is present.
  The values are kept as they are in the header.
\<close>

definition family_values :: "header \<Rightarrow> string list \<Rightarrow> hval list" where
  "family_values h base = map (\<lambda>k. the (h k)) base"

text \<open>
  Lines 99 and 100:
  \<^verbatim>\<open>(n.arange(L) + 1 - header['CRPIX'+ax]) * header['CDELT'+ax] + header['CRVAL'+ax]\<close>
\<close>

definition regular_baseline :: "header \<Rightarrow> string \<Rightarrow> nat \<Rightarrow> error + hval list" where
  "regular_baseline h ax L =
     ebind (getkey (''CRPIX'' @ ax) (h (''CRPIX'' @ ax))) (\<lambda>vp.
     ebind (num_of vp) (\<lambda>crpix.
     ebind (getkey (''CDELT'' @ ax) (h (''CDELT'' @ ax))) (\<lambda>vd.
     ebind (num_of vd) (\<lambda>cdelt.
     ebind (getkey (''CRVAL'' @ ax) (h (''CRVAL'' @ ax))) (\<lambda>vv.
     ebind (num_of vv) (\<lambda>crval.
     Inr (map (\<lambda>k. HNum ((of_nat k + 1 - crpix) * cdelt + crval)) [0..<L])))))))"

text \<open>
  The lists that the loop of lines 78 to 110 updates in place: the baselines, and the
  entries \<^verbatim>\<open>par_names\<close>, \<^verbatim>\<open>par_units\<close> and \<^verbatim>\<open>par_axistype\<close> of the dictionary.
\<close>

record axes_state =
  st_baselines :: "hval list list"
  st_names :: "hval list"
  st_units :: "hval list"
  st_axistype :: "string list"

text \<open>One pass of the loop, for the parameter \<open>ipar\<close>.\<close>

definition read_axis :: "nat list \<Rightarrow> header \<Rightarrow> nat \<Rightarrow> nat \<Rightarrow> axes_state \<Rightarrow> error + axes_state" where
  "read_axis shp h npars ipar st =
     (let ax = str_nat (npars + 1 - ipar);
          st1 = (case h (''CNAME'' @ ax) of Some v \<Rightarrow> st\<lparr>st_names := (st_names st)[ipar := v]\<rparr>
                 | None \<Rightarrow> st);
          st2 = (case h (''CUNIT'' @ ax) of Some v \<Rightarrow> st1\<lparr>st_units := (st_units st1)[ipar := v]\<rparr>
                 | None \<Rightarrow> st1);
          is_regular = (key_in (''CRPIX'' @ ax) h \<and> key_in (''CRVAL'' @ ax) h
                        \<and> key_in (''CDELT'' @ ax) h);
          is_irregular = family_test h (pv_base ax (shp ! ipar));
          is_labeled = family_test h (ps_base ax (shp ! ipar));
          is_named = family_test h (n_base ax (shp ! ipar))
      in if is_regular then
           ebind (regular_baseline h ax (shp ! ipar)) (\<lambda>b.
             Inr (st2\<lparr>st_baselines := (st_baselines st2)[ipar := b],
                      st_axistype := (st_axistype st2)[ipar := ''regular'']\<rparr>))
         else if is_irregular then
           Inr (st2\<lparr>st_baselines := (st_baselines st2)[ipar := family_values h (pv_base ax (shp ! ipar))],
                    st_axistype := (st_axistype st2)[ipar := ''irregular'']\<rparr>)
         else if is_labeled then
           Inr (st2\<lparr>st_baselines := (st_baselines st2)[ipar := family_values h (ps_base ax (shp ! ipar))],
                    st_axistype := (st_axistype st2)[ipar := ''labeled'']\<rparr>)
         else if is_named then
           Inr (st2\<lparr>st_baselines := (st_baselines st2)[ipar := family_values h (n_base ax (shp ! ipar))],
                    st_axistype := (st_axistype st2)[ipar := ''named'']\<rparr>)
         else Inr st2)"

text \<open>
  Line 76 and the list entries of lines 71 to 73: every axis starts as an index axis
  with the baseline 1, 2, ..., and with no name and no unit.
\<close>

definition index_defaults :: "nat list \<Rightarrow> axes_state" where
  "index_defaults shp =
     \<lparr>st_baselines = map (\<lambda>this_size. map (\<lambda>k. HNum (of_nat k + 1)) [0..<this_size]) (butlast shp),
      st_names = replicate (length shp - 1) (HStr []),
      st_units = replicate (length shp - 1) (HStr []),
      st_axistype = replicate (length shp - 1) ''index''\<rparr>"

text \<open>The loop over the parameters.\<close>

definition read_axes :: "nat list \<Rightarrow> header \<Rightarrow> error + axes_state" where
  "read_axes shp h =
     fold_err (read_axis shp h (length shp - 1)) [0..<length shp - 1] (index_defaults shp)"

text \<open>
  \<^verbatim>\<open>read_ndArch(fname)\<close>, on the files \<open>fs\<close>. The rank of the array minus one is the
  number of parameters; for an array of rank 0 Python computes \<open>-1\<close>, which the list
  repetitions and the loop treat like 0, as the truncated subtraction does here.
\<close>

definition read_ndArch ::
  "'a filesys \<Rightarrow> string \<Rightarrow> error + ('a ndarray \<times> hval list list \<times> infodict)" where
  "read_ndArch fs fname =
     ebind (fn_CLASS fname) (\<lambda>cls.
     ebind (fn_VERSION fname) (\<lambda>ver.
     ebind (fits_open fs fname) (\<lambda>f.
     ebind (py_get (split CHR ''/'' fname) (- 1)) (\<lambda>base.
     ebind (getkey ''CRVAL1'' (header f ''CRVAL1'')) (\<lambda>c0.
     ebind (getkey ''CDELT1'' (header f ''CDELT1'')) (\<lambda>c1.
     ebind (getkey ''NAXIS1'' (header f ''NAXIS1'')) (\<lambda>nw.
     ebind (read_axes (shape (data f)) (header f)) (\<lambda>st.
     Inr (data f, st_baselines st,
          \<lparr>filename = Some base, class_name = Some cls, version = Some ver,
           coeff0 = Some c0, coeff1 = Some c1, nwave = Some nw,
           fluxunit = Some (case header f ''BUNIT'' of Some u \<Rightarrow> u | None \<Rightarrow> HStr []),
           par_names = Some (st_names st), par_units = Some (st_units st),
           par_axistype = Some (st_axistype st)\<rparr>)))))))))"

section \<open>The ndArch writer\<close>

text \<open>\<^verbatim>\<open>a - b\<close> on two baseline elements.\<close>

definition hsub :: "hval \<Rightarrow> hval \<Rightarrow> error + hval" where
  "hsub a b = ebind (num_of a) (\<lambda>x. ebind (num_of b) (\<lambda>y. Inr (HNum (x - y))))"

text \<open>
  \<^verbatim>\<open>for j in xrange(data.shape[ipar]): hdu.header.set(base[j], value=baselines[ipar][j])\<close>
\<close>

definition write_family ::
  "string list \<Rightarrow> hval list list \<Rightarrow> nat \<Rightarrow> nat \<Rightarrow> header \<Rightarrow> error + header" where
  "write_family base baselines ipar L h =
     fold_err (\<lambda>j hd.
        ebind (py_get baselines (int ipar)) (\<lambda>b.
        ebind (py_get b (int j)) (\<lambda>v. Inr (hd(base ! j \<mapsto> v)))))
       [0..<L] h"

text \<open>One pass of the loop of lines 171 to 197, for the parameter \<open>ipar\<close>.\<close>

definition write_axis ::
  "nat list \<Rightarrow> hval list list \<Rightarrow> infodict \<Rightarrow> nat \<Rightarrow> nat \<Rightarrow> header \<Rightarrow> error + header" where
  "write_axis shp baselines info npars ipar h =
     (let ax = str_nat (npars + 1 - ipar) in
      ebind (case par_names info of None \<Rightarrow> Inr h
             | Some ns \<Rightarrow> ebind (py_get ns (int ipar)) (\<lambda>v. Inr (h(''CNAME'' @ ax \<mapsto> v)))) (\<lambda>h1.
      ebind (case par_units info of None \<Rightarrow> Inr h1
             | Some us \<Rightarrow> ebind (py_get us (int ipar)) (\<lambda>v. Inr (h1(''CUNIT'' @ ax \<mapsto> v)))) (\<lambda>h2.
      ebind (getkey ''par_axistype'' (par_axistype info)) (\<lambda>kinds.
      ebind (py_get kinds (int ipar)) (\<lambda>kind.
      if strip kind = ''regular'' then
        ebind (py_get baselines (int ipar)) (\<lambda>b.
        ebind (py_get b 0) (\<lambda>b0.
        ebind (py_get b 1) (\<lambda>b1.
        ebind (hsub b1 b0) (\<lambda>d.
        Inr (h2(''CRPIX'' @ ax \<mapsto> HNum 1, ''CRVAL'' @ ax \<mapsto> b0, ''CDELT'' @ ax \<mapsto> d))))))
      else if strip kind = ''irregular'' then
        write_family (pv_base ax (shp ! ipar)) baselines ipar (shp ! ipar) h2
      else if strip kind = ''labeled'' then
        write_family (ps_base ax (shp ! ipar)) baselines ipar (shp ! ipar) h2
      else if strip kind = ''named'' then
        write_family (n_base ax (shp ! ipar)) baselines ipar (shp ! ipar) h2
      else Inr h2)))))"

text \<open>
  \<^verbatim>\<open>write_ndArch(data, baselines, infodict)\<close>, on the files \<open>fs\<close>: the file is written
  last, with \<^verbatim>\<open>clobber=True\<close>, so an exception leaves the files as they were.
\<close>

definition write_ndArch ::
  "'a filesys \<Rightarrow> 'a ndarray \<Rightarrow> hval list list \<Rightarrow> infodict \<Rightarrow> error + 'a filesys" where
  "write_ndArch fs d baselines info =
     (let h0 = header (PrimaryHDU d);
          h1 = (case fluxunit info of Some u \<Rightarrow> h0(''BUNIT'' \<mapsto> u) | None \<Rightarrow> h0);
          npars = length (shape d) - 1;
          h2 = h1(''CNAME1'' \<mapsto> HStr ''loglam'', ''CUNIT1'' \<mapsto> HStr ''log10(Angstroms)'',
                  ''CRPIX1'' \<mapsto> HNum 1)
      in
      ebind (getkey ''coeff0'' (coeff0 info)) (\<lambda>c0.
      ebind (getkey ''coeff1'' (coeff1 info)) (\<lambda>c1.
      ebind (fold_err (write_axis (shape d) baselines info npars) (rev [0..<npars])
               (h2(''CRVAL1'' \<mapsto> c0, ''CDELT1'' \<mapsto> c1))) (\<lambda>h.
      ebind (getkey ''filename'' (filename info)) (\<lambda>fn.
      Inr (fs(fn \<mapsto> \<lparr>data = d, header = h\<rparr>)))))))"

section \<open>Writing the result files (\<^verbatim>\<open>Write_Redmonster\<close> of \<^verbatim>\<open>io2.py\<close>)\<close>

text \<open>
  The fields of \<^verbatim>\<open>zpick\<close> that name the output file. \<open>plate\<close> and \<open>mjd\<close> are
  held as the text that \<^verbatim>\<open>'%s'\<close> formats them to.
\<close>

record zpick =
  plate :: string
  mjd :: string
  fiberid :: "nat list"

record Write_Redmonster =
  clobber :: bool
  dest :: "string option"
  zpick :: zpick

text \<open>
  \<^verbatim>\<open>__init__(self, zpick, dest=None, clobber=True)\<close>; an argument that the caller
  leaves out is \<open>None\<close> here. \<open>dest\<close> is the directory that the constructor settles on
  (the caller's, the one of the environment, or none).
\<close>

definition Write_Redmonster_init :: "zpick \<Rightarrow> string option \<Rightarrow> bool option \<Rightarrow> Write_Redmonster" where
  "Write_Redmonster_init zp dst clobber_arg =
     \<lparr>clobber = (case clobber_arg of None \<Rightarrow> True | Some c \<Rightarrow> c), dest = dst, zpick = zp\<rparr>"

text \<open>\<^verbatim>\<open>os.path.join(a, b)\<close> and \<^verbatim>\<open>'%03d' % n\<close>.\<close>

definition path_join :: "string \<Rightarrow> string \<Rightarrow> string" where
  "path_join a b =
     (if b \<noteq> [] \<and> hd b = CHR ''/'' then b
      else if a = [] \<or> last a = CHR ''/'' then a @ b
      else a @ ''/'' @ b)"

definition fmt_03d :: "nat \<Rightarrow> string" where
  "fmt_03d n = replicate (3 - length (str_nat n)) CHR ''0'' @ str_nat n"

text \<open>
  The result files, by path. \<^verbatim>\<open>writeto(name, clobber=c)\<close> refuses to replace a file
  unless \<open>c\<close> holds.
\<close>

definition writeto :: "(string \<rightharpoonup> 'c) \<Rightarrow> string \<Rightarrow> 'c \<Rightarrow> bool \<Rightarrow> error + (string \<rightharpoonup> 'c)" where
  "writeto fs name content c =
     (if fs name \<noteq> None \<and> \<not> c then Inl IOError else Inr (fs(name \<mapsto> content)))"

text \<open>
  A method leaves the files as they are after it, and returns or raises. An exception
  of a \<^verbatim>\<open>print\<close> comes after the write of its branch.
\<close>

definition after_write ::
  "(string \<rightharpoonup> 'c) \<Rightarrow> error + (string \<rightharpoonup> 'c) \<Rightarrow> error option \<Rightarrow> (string \<rightharpoonup> 'c) \<times> error option" where
  "after_write fs r print_error =
     (case r of Inl e \<Rightarrow> (fs, Some e) | Inr fs' \<Rightarrow> (fs', print_error))"

text \<open>
  \<^verbatim>\<open>write_fiber(self)\<close>. \<open>thdulist\<close> is what \<^verbatim>\<open>create_hdulist\<close> has built and
  \<open>now\<close> the text of \<^verbatim>\<open>strftime\<close>. The name with the time stamp gives \<^verbatim>\<open>'%03d'\<close>
  the time stamp, a string, which raises. In the branch without \<open>dest\<close> the
  \<^verbatim>\<open>print\<close> has two arguments for three formats, which raises after the write.
\<close>

definition write_fiber ::
  "Write_Redmonster \<Rightarrow> 'c \<Rightarrow> string \<Rightarrow> (string \<rightharpoonup> 'c) \<Rightarrow> (string \<rightharpoonup> 'c) \<times> error option" where
  "write_fiber self0 thdulist now fs =
     (let self = self0\<lparr>clobber := True\<rparr>; zp = zpick self in
      case py_get (fiberid zp) 0 of Inl e \<Rightarrow> (fs, Some e)
      | Inr fib \<Rightarrow>
        (let name = ''redmonster-'' @ plate zp @ ''-'' @ mjd zp @ ''-'' @ fmt_03d fib @ ''.fits'' in
         if clobber self then
           (case dest self of
              Some dst \<Rightarrow> after_write fs (writeto fs (path_join dst name) thdulist (clobber self)) None
            | None \<Rightarrow> after_write fs (writeto fs name thdulist (clobber self)) (Some TypeError))
         else
           (case dest self of
              Some dst \<Rightarrow>
                if fs (path_join dst name) \<noteq> None then (fs, Some TypeError)
                else after_write fs (writeto fs (path_join dst name) thdulist False) None
            | None \<Rightarrow>
                if fs name \<noteq> None then (fs, Some TypeError)
                else after_write fs (writeto fs name thdulist False) None)))"

text \<open>\<^verbatim>\<open>write_plate(self)\<close>\<close>

definition write_plate ::
  "Write_Redmonster \<Rightarrow> 'c \<Rightarrow> string \<Rightarrow> (string \<rightharpoonup> 'c) \<Rightarrow> (string \<rightharpoonup> 'c) \<times> error option" where
  "write_plate self thdulist now fs =
     (let zp = zpick self;
          name = ''redmonster-'' @ plate zp @ ''-'' @ mjd zp @ ''.fits'';
          stamped = ''redmonster-'' @ plate zp @ ''-'' @ mjd zp @ ''-'' @ now @ ''.fits'' in
      if clobber self then
        (case dest self of
           Some dst \<Rightarrow> after_write fs (writeto fs (path_join dst name) thdulist (clobber self)) None
         | None \<Rightarrow> after_write fs (writeto fs name thdulist (clobber self)) None)
      else
        (case dest self of
           Some dst \<Rightarrow>
             if fs (path_join dst name) \<noteq> None
             then after_write fs (writeto fs (path_join dst stamped) thdulist False) None
             else after_write fs (writeto fs (path_join dst name) thdulist False) None
         | None \<Rightarrow>
             if fs name \<noteq> None
             then after_write fs (writeto fs stamped thdulist False) None
             else after_write fs (writeto fs name thdulist False) None))"

section \<open>Concrete archives\<close>

definition archive_1d :: "nat hdu" where
  "archive_1d = \<lparr>data = \<lparr>shape = [2], bitpix = - 64, elems = [10, 20]\<rparr>,
     header = [''CRVAL1'' \<mapsto> HNum 3, ''CDELT1'' \<mapsto> HNum 1, ''NAXIS1'' \<mapsto> HNum 2]\<rparr>"

definition archive_no_grid :: "nat hdu" where
  "archive_no_grid = \<lparr>data = \<lparr>shape = [2], bitpix = - 64, elems = [10, 20]\<rparr>,
     header = [''NAXIS1'' \<mapsto> HNum 2]\<rparr>"

definition archive_regular :: "nat hdu" where
  "archive_regular = \<lparr>data = \<lparr>shape = [3, 2], bitpix = - 64, elems = [1, 2, 3, 4, 5, 6]\<rparr>,
     header = [''CRVAL1'' \<mapsto> HNum 3, ''CDELT1'' \<mapsto> HNum 1, ''NAXIS1'' \<mapsto> HNum 2,
               ''NAXIS2'' \<mapsto> HNum 3, ''CRPIX2'' \<mapsto> HNum 1, ''CRVAL2'' \<mapsto> HNum 5,
               ''CDELT2'' \<mapsto> HNum 2]\<rparr>"

definition archive_partial_pv :: "nat hdu" where
  "archive_partial_pv = \<lparr>data = \<lparr>shape = [2, 3], bitpix = - 64, elems = [1, 2, 3, 4, 5, 6]\<rparr>,
     header = [''CRVAL1'' \<mapsto> HNum 3, ''CDELT1'' \<mapsto> HNum 1, ''NAXIS1'' \<mapsto> HNum 3,
               ''NAXIS2'' \<mapsto> HNum 2, ''PV2_1'' \<mapsto> HNum 4]\<rparr>"

text \<open>The keys that belong to the FITS axis number \<open>a\<close>.\<close>

definition axis_keys :: "nat \<Rightarrow> string set" where
  "axis_keys a =
     {''CNAME'' @ str_nat a, ''CUNIT'' @ str_nat a, ''CRPIX'' @ str_nat a, ''CRVAL'' @ str_nat a,
      ''CDELT'' @ str_nat a}
     \<union> (\<Union>j. {''PV'' @ str_nat a @ ''_'' @ str_nat j, ''PS'' @ str_nat a @ ''_'' @ str_nat j,
              ''N'' @ str_nat a @ ''_'' @ str_nat j})"

text \<open>
  Writing an archive to the files \<open>fs\<close> and reading the file written back, and one card
  of the header of the file written.
\<close>

definition round_trip ::
  "'a filesys \<Rightarrow> 'a ndarray \<Rightarrow> hval list list \<Rightarrow> infodict
     \<Rightarrow> error + ('a ndarray \<times> hval list list \<times> infodict)" where
  "round_trip fs d B I =
     ebind (write_ndArch fs d B I) (\<lambda>fs'.
     ebind (getkey ''filename'' (filename I)) (\<lambda>fn. read_ndArch fs' fn))"

definition written_card ::
  "'a filesys \<Rightarrow> 'a ndarray \<Rightarrow> hval list list \<Rightarrow> infodict \<Rightarrow> string \<Rightarrow> error + hval option" where
  "written_card fs d B I k =
     ebind (write_ndArch fs d B I) (\<lambda>fs'.
     ebind (getkey ''filename'' (filename I)) (\<lambda>fn.
     ebind (fits_open fs' fn) (\<lambda>f. Inr (header f k))))"

definition grid_2x3 :: "nat ndarray" where
  "grid_2x3 = \<lparr>shape = [2, 3], bitpix = - 64, elems = [1, 2, 3, 4, 5, 6]\<rparr>"

definition info_example :: "string \<Rightarrow> infodict" where
  "info_example kind =
     \<lparr>filename = Some ''ndArch-T-v0.fits'', class_name = None, version = None,
      coeff0 = Some (HNum 3), coeff1 = Some (HNum 1), nwave = None, fluxunit = Some (HStr []),
      par_names = None, par_units = None, par_axistype = Some [kind]\<rparr>"

text \<open>
  The archives for which writing and reading back is the identity. A regular axis has at
  least two elements, numbers in arithmetic progression; an irregular axis has numbers; a
  labeled or named axis has strings; an index axis has the baseline 1, 2, ...; every
  baseline has the length of its axis, which is not 0; the kinds are the five names, with
  no blanks around them; and the file name is one that \<^verbatim>\<open>read_ndArch\<close> parses.
\<close>

definition the_num :: "hval \<Rightarrow> rat" where
  "the_num v = (case v of HNum x \<Rightarrow> x | _ \<Rightarrow> 0)"

definition regular_grid :: "hval list \<Rightarrow> bool" where
  "regular_grid b =
     (2 \<le> length b \<and>
      b = map (\<lambda>k. HNum (the_num (b ! 0) + of_nat k * (the_num (b ! 1) - the_num (b ! 0))))
            [0..<length b])"

definition is_HNum :: "hval \<Rightarrow> bool" where
  "is_HNum v = (case v of HNum x \<Rightarrow> True | _ \<Rightarrow> False)"

definition is_HStr :: "hval \<Rightarrow> bool" where
  "is_HStr v = (case v of HStr s \<Rightarrow> True | _ \<Rightarrow> False)"

definition valid_axis :: "string \<Rightarrow> nat \<Rightarrow> hval list \<Rightarrow> bool" where
  "valid_axis kind L b =
     (length b = L \<and> 0 < L \<and>
      (if kind = ''regular'' then regular_grid b
       else if kind = ''irregular'' then list_all is_HNum b
       else if kind = ''labeled'' \<or> kind = ''named'' then list_all is_HStr b
       else kind = ''index'' \<and> b = map (\<lambda>k. HNum (of_nat k + 1)) [0..<L]))"

definition valid_archive :: "'a ndarray \<Rightarrow> hval list list \<Rightarrow> infodict \<Rightarrow> bool" where
  "valid_archive d B I =
     (shape d \<noteq> [] \<and> length B = length (shape d) - 1 \<and>
      coeff0 I \<noteq> None \<and> coeff1 I \<noteq> None \<and>
      (case filename I of None \<Rightarrow> False
       | Some fn \<Rightarrow> (case fn_CLASS fn of Inl e \<Rightarrow> False | Inr cls \<Rightarrow> True)) \<and>
      (case par_names I of None \<Rightarrow> True | Some ns \<Rightarrow> length (shape d) - 1 \<le> length ns) \<and>
      (case par_units I of None \<Rightarrow> True | Some us \<Rightarrow> length (shape d) - 1 \<le> length us) \<and>
      (case par_axistype I of None \<Rightarrow> False
       | Some ks \<Rightarrow> length ks = length (shape d) - 1 \<and>
           list_all (\<lambda>i. valid_axis (ks ! i) (shape d ! i) (B ! i)) [0..<length ks]))"

(*DEFS*)

section \<open>Basic facts\<close>

lemma ebind_Inr [simp]: "ebind (Inr x) f = f x" by (simp add: ebind_def)
lemma ebind_Inl [simp]: "ebind (Inl e) f = Inl e" by (simp add: ebind_def)

lemma split_not_Nil [simp]: "split c s \<noteq> []"
  by (induction s) (auto simp: Let_def)

lemma split_no_sep: "c \<notin> set s \<Longrightarrow> split c s = [s]"
  by (induction s) (auto simp: Let_def)

lemma split_at_sep: "split c (a @ c # b) = split c a @ split c b"
proof (induction a)
  case Nil
  show ?case by simp
next
  case (Cons x a)
  show ?case
  proof (cases "x = c")
    case True
    then show ?thesis using Cons by simp
  next
    case False
    have "split c a \<noteq> []" by simp
    then obtain t ts where "split c a = t # ts" by (cases "split c a") auto
    then show ?thesis using False Cons by (simp add: Let_def)
  qed
qed

lemma occurs_at_beyond:
  "j \<le> length s \<Longrightarrow> length s < j + length sub \<Longrightarrow> \<not> occurs_at s sub j"
  unfolding occurs_at_def
proof
  assume le: "j \<le> length s" and a: "length s < j + length sub"
    and b: "take (length sub) (drop j s) = sub"
  have "length (take (length sub) (drop j s)) = length sub" using b by simp
  then show False using a le by simp
qed

lemma rfind_from_last:
  "n \<le> i \<Longrightarrow> occurs_at s sub n \<Longrightarrow> (\<forall>j. n < j \<and> j \<le> i \<longrightarrow> \<not> occurs_at s sub j)
     \<Longrightarrow> rfind_from s sub i = int n"
proof (induction i)
  case 0
  then show ?case by simp
next
  case (Suc i)
  show ?case
  proof (cases "n = Suc i")
    case True
    then show ?thesis using Suc.prems by simp
  next
    case False
    then have "n \<le> i" using Suc.prems by simp
    moreover have "\<not> occurs_at s sub (Suc i)" using Suc.prems False by simp
    ultimately show ?thesis using Suc by simp
  qed
qed

lemma rfind_suffix: "sub \<noteq> [] \<Longrightarrow> rfind (stem @ sub) sub = int (length stem)"
  unfolding rfind_def
proof (rule rfind_from_last)
  assume ne: "sub \<noteq> []"
  show "length stem \<le> length (stem @ sub)" by simp
  show "occurs_at (stem @ sub) sub (length stem)" by (simp add: occurs_at_def)
  show "\<forall>j. length stem < j \<and> j \<le> length (stem @ sub) \<longrightarrow> \<not> occurs_at (stem @ sub) sub j"
    using occurs_at_beyond[of _ "stem @ sub" sub] by simp
qed

lemma fn_ROOT_fits: "fn_ROOT (stem @ ''.fits'') = stem"
  by (simp add: fn_ROOT_def rfind_suffix slice_to_def)

lemma py_get_last: "py_get (xs @ [x]) (- 1) = Inr x"
  by (simp add: py_get_def Let_def nat_add_distrib)

lemma py_get_last2: "py_get (xs @ [x, y]) (- 2) = Inr x"
  by (simp add: py_get_def Let_def nth_append)

lemma py_get_single2: "py_get [x] (- 2) = Inl IndexError"
  by (simp add: py_get_def)

lemma tokens_class_version:
  assumes "p = [] \<or> last p = CHR ''-''" "CHR ''-'' \<notin> set cls" "CHR ''-'' \<notin> set ver"
  shows "\<exists>ts. split CHR ''-'' (p @ cls @ ''-'' @ ver) = ts @ [cls, ver]"
proof (cases "p = []")
  case True
  then show ?thesis using assms split_at_sep[of "CHR ''-''" cls ver]
    by (simp add: split_no_sep)
next
  case False
  then have "p = butlast p @ ''-''" using assms(1) by (metis append_butlast_last_id)
  then obtain q where q: "p = q @ ''-''" ..
  have "split CHR ''-'' (p @ cls @ ''-'' @ ver) = split CHR ''-'' q @ split CHR ''-'' (cls @ CHR ''-'' # ver)"
    using q split_at_sep[of "CHR ''-''" q "cls @ CHR ''-'' # ver"] by simp
  also have "\<dots> = split CHR ''-'' q @ [cls, ver]"
    using assms split_at_sep[of "CHR ''-''" cls ver] by (simp add: split_no_sep)
  finally show ?thesis by blast
qed

lemma fn_CLASS_VERSION:
  assumes "p = [] \<or> last p = CHR ''-''" "CHR ''-'' \<notin> set cls" "CHR ''-'' \<notin> set ver"
  shows "fn_CLASS (p @ cls @ ''-'' @ ver @ ''.fits'') = Inr cls"
    and "fn_VERSION (p @ cls @ ''-'' @ ver @ ''.fits'') = Inr ver"
proof -
  have r: "fn_ROOT (p @ cls @ ''-'' @ ver @ ''.fits'') = p @ cls @ ''-'' @ ver"
    using fn_ROOT_fits[of "p @ cls @ ''-'' @ ver"] by simp
  obtain ts where ts: "split CHR ''-'' (p @ cls @ ''-'' @ ver) = ts @ [cls, ver]"
    using tokens_class_version[OF assms] by blast
  show "fn_CLASS (p @ cls @ ''-'' @ ver @ ''.fits'') = Inr cls"
    unfolding fn_CLASS_def r ts by (rule py_get_last2)
  have "ts @ [cls, ver] = (ts @ [cls]) @ [ver]" by simp
  then show "fn_VERSION (p @ cls @ ''-'' @ ver @ ''.fits'') = Inr ver"
    unfolding fn_VERSION_def r ts using py_get_last[of "ts @ [cls]" ver] by simp
qed

lemma fn_CLASS_no_dash:
  "CHR ''-'' \<notin> set stem \<Longrightarrow> fn_CLASS (stem @ ''.fits'') = Inl IndexError"
  by (simp add: fn_CLASS_def fn_ROOT_fits split_no_sep py_get_single2)


lemma read_ndArch_InrD:
  assumes "read_ndArch fs fname = Inr (d, bl, info)"
  obtains cls ver f base c0 c1 nw st where
    "fn_CLASS fname = Inr cls" "fn_VERSION fname = Inr ver" "fs fname = Some f"
    "header f ''CRVAL1'' = Some c0" "header f ''CDELT1'' = Some c1" "header f ''NAXIS1'' = Some nw"
    "read_axes (shape (data f)) (header f) = Inr st"
    "d = data f" "bl = st_baselines st"
    "info = \<lparr>filename = Some base, class_name = Some cls, version = Some ver,
           coeff0 = Some c0, coeff1 = Some c1, nwave = Some nw,
           fluxunit = Some (case header f ''BUNIT'' of Some u \<Rightarrow> u | None \<Rightarrow> HStr []),
           par_names = Some (st_names st), par_units = Some (st_units st),
           par_axistype = Some (st_axistype st)\<rparr>"
  using assms unfolding read_ndArch_def
  by (auto simp: ebind_def fits_open_def getkey_def split: sum.splits option.splits)

lemma py_get_split_last: "\<exists>base. py_get (split c s) (- 1) = Inr base"
proof -
  have "split c s \<noteq> []" by simp
  then obtain ts t where "split c s = ts @ [t]" by (metis rev_exhaust)
  then show ?thesis using py_get_last by metis
qed

lemma read_ndArch_InrI:
  assumes "fn_CLASS fname = Inr cls" "fn_VERSION fname = Inr ver" "fs fname = Some f"
    "header f ''CRVAL1'' = Some c0" "header f ''CDELT1'' = Some c1" "header f ''NAXIS1'' = Some nw"
    "read_axes (shape (data f)) (header f) = Inr st"
  shows "\<exists>info. read_ndArch fs fname = Inr (data f, st_baselines st, info)"
proof -
  obtain base where "py_get (split CHR ''/'' fname) (- 1) = Inr base"
    using py_get_split_last by blast
  then show ?thesis using assms unfolding read_ndArch_def
    by (simp add: fits_open_def getkey_def)
qed

text \<open>
  C6, as amended. The class and the version are the last two tokens, split at \<open>-\<close>, of
  the file name before its final \<^verbatim>\<open>.fits\<close>: a name \<open>p @ cls @ ''-'' @ ver @ ''.fits''\<close>
  in which \<open>p\<close> is empty or ends in \<open>-\<close>, and \<open>cls\<close> and \<open>ver\<close> hold no \<open>-\<close>, reads
  as class \<open>cls\<close> and version \<open>ver\<close>. When no \<open>-\<close> comes before \<^verbatim>\<open>.fits\<close> the read
  raises \<^verbatim>\<open>IndexError\<close> (the indexing of the token list, what the specification calls
  InvalidNameError), before the file is opened.
\<close>

theorem read_ndArch_class_version:
  "(CHR ''-'' \<notin> set stem \<longrightarrow> read_ndArch fs (stem @ ''.fits'') = Inl IndexError) \<and>
   ((p = [] \<or> last p = CHR ''-'') \<and> CHR ''-'' \<notin> set cls \<and> CHR ''-'' \<notin> set ver \<and>
      read_ndArch fs (p @ cls @ ''-'' @ ver @ ''.fits'') = Inr (d, bl, info)
    \<longrightarrow> class_name info = Some cls \<and> version info = Some ver)"
proof -
  have bad: "read_ndArch fs (stem @ ''.fits'') = Inl IndexError" if "CHR ''-'' \<notin> set stem"
    using that unfolding read_ndArch_def by (simp add: fn_CLASS_no_dash)
  have good: "class_name info = Some cls \<and> version info = Some ver"
    if a: "p = [] \<or> last p = CHR ''-''" "CHR ''-'' \<notin> set cls" "CHR ''-'' \<notin> set ver"
      and r: "read_ndArch fs (p @ cls @ ''-'' @ ver @ ''.fits'') = Inr (d, bl, info)"
  proof -
    have c: "fn_CLASS (p @ cls @ ''-'' @ ver @ ''.fits'') = Inr cls"
      and v: "fn_VERSION (p @ cls @ ''-'' @ ver @ ''.fits'') = Inr ver"
      using fn_CLASS_VERSION[OF a] by blast+
    show ?thesis using r c v by (auto elim!: read_ndArch_InrD)
  qed
  show ?thesis using bad good by blast
qed


lemmas read_eval = read_ndArch_def fn_CLASS_def fn_VERSION_def fn_ROOT_def rfind_def occurs_at_def
  slice_to_def py_get_def fits_open_def getkey_def read_axes_def index_defaults_def

theorem read_ndArch_class_version_witness:
  "CHR ''-'' \<notin> set ''bad'' \<and>
   read_ndArch [''ndArch-STAR-v1.fits'' \<mapsto> archive_1d] (''bad'' @ ''.fits'') = Inl IndexError \<and>
   (''ndArch-'' = [] \<or> last ''ndArch-'' = CHR ''-'') \<and> CHR ''-'' \<notin> set ''STAR'' \<and>
   CHR ''-'' \<notin> set ''v1'' \<and>
   read_ndArch [''ndArch-STAR-v1.fits'' \<mapsto> archive_1d] (''ndArch-'' @ ''STAR'' @ ''-'' @ ''v1'' @ ''.fits'')
     = Inr (data archive_1d, [],
         \<lparr>filename = Some ''ndArch-STAR-v1.fits'', class_name = Some ''STAR'', version = Some ''v1'',
          coeff0 = Some (HNum 3), coeff1 = Some (HNum 1), nwave = Some (HNum 2),
          fluxunit = Some (HStr []), par_names = Some [], par_units = Some [],
          par_axistype = Some []\<rparr>)"
proof -
  have r: "read_ndArch [''ndArch-STAR-v1.fits'' \<mapsto> archive_1d] (''ndArch-'' @ ''STAR'' @ ''-'' @ ''v1'' @ ''.fits'')
     = Inr (data archive_1d, [],
         \<lparr>filename = Some ''ndArch-STAR-v1.fits'', class_name = Some ''STAR'', version = Some ''v1'',
          coeff0 = Some (HNum 3), coeff1 = Some (HNum 1), nwave = Some (HNum 2),
          fluxunit = Some (HStr []), par_names = Some [], par_units = Some [],
          par_axistype = Some []\<rparr>)"
    by (simp add: read_eval archive_1d_def)
  have h: "CHR ''-'' \<notin> set ''bad''" by simp
  show ?thesis
    using h r read_ndArch_class_version[of "''bad''" "[''ndArch-STAR-v1.fits'' \<mapsto> archive_1d]"
        "''ndArch-''" "''STAR''" "''v1''"]
    by simp
qed

text \<open>
  C6 as stated fails on the name of its own example: \<^verbatim>\<open>.fits\<close> does not occur in
  \<^verbatim>\<open>ndArch-STAR-v1.ext\<close>, \<^verbatim>\<open>rfind\<close> returns \<open>-1\<close>, the slice drops the last
  character and the version read is \<^verbatim>\<open>v1.ex\<close>.
\<close>

theorem read_ndArch_ext_counterexample:
  "read_ndArch [''ndArch-STAR-v1.ext'' \<mapsto> archive_1d] ''ndArch-STAR-v1.ext''
     = Inr (data archive_1d, [],
         \<lparr>filename = Some ''ndArch-STAR-v1.ext'', class_name = Some ''STAR'', version = Some ''v1.ex'',
          coeff0 = Some (HNum 3), coeff1 = Some (HNum 1), nwave = Some (HNum 2),
          fluxunit = Some (HStr []), par_names = Some [], par_units = Some [],
          par_axistype = Some []\<rparr>)"
  by (simp add: read_eval archive_1d_def)

lemma py_get_neg2_neg1: "py_get xs (- 2) = Inr x \<Longrightarrow> \<exists>y. py_get xs (- 1) = Inr y"
  by (auto simp: py_get_def Let_def split: if_splits)

lemma fn_CLASS_VERSION_ok: "fn_CLASS fname = Inr cls \<Longrightarrow> \<exists>ver. fn_VERSION fname = Inr ver"
  unfolding fn_CLASS_def fn_VERSION_def by (rule py_get_neg2_neg1)

lemma py_get_error: "py_get xs i = Inl e \<Longrightarrow> e = IndexError"
  by (simp add: py_get_def split: if_splits)

lemma fn_CLASS_error: "fn_CLASS fname = Inl e \<Longrightarrow> e = IndexError"
  unfolding fn_CLASS_def by (rule py_get_error)

text \<open>
  C5, as amended. A file whose header has neither \<^verbatim>\<open>CRVAL1\<close> nor \<^verbatim>\<open>CDELT1\<close> is never
  read and nothing stands in for the missing wavelength grid, but the exception is not a
  MalformedArchiveError: neither source file defines or raises an exception class of its
  own. For a file name that parses, \<^verbatim>\<open>read_ndArch\<close> raises the \<^verbatim>\<open>KeyError\<close> of the lookup
  \<^verbatim>\<open>header['CRVAL1']\<close> (line 67); for a file name that does not parse it raises the
  \<^verbatim>\<open>IndexError\<close> of line 55 before the file is opened.
\<close>

theorem read_ndArch_no_CRVAL1:
  assumes "fs fname = Some f" "header f ''CRVAL1'' = None" "header f ''CDELT1'' = None"
  shows "(\<exists>e. read_ndArch fs fname = Inl e) \<and>
         (\<forall>cls. fn_CLASS fname = Inr cls \<longrightarrow> read_ndArch fs fname = Inl (KeyError ''CRVAL1'')) \<and>
         (\<forall>e. fn_CLASS fname = Inl e \<longrightarrow> read_ndArch fs fname = Inl IndexError)"
proof -
  have k: "read_ndArch fs fname = Inl (KeyError ''CRVAL1'')" if c: "fn_CLASS fname = Inr cls" for cls
  proof -
    obtain ver where "fn_VERSION fname = Inr ver" using fn_CLASS_VERSION_ok c by blast
    moreover obtain base where "py_get (split CHR ''/'' fname) (- 1) = Inr base"
      using py_get_split_last by blast
    ultimately show ?thesis using c assms
      unfolding read_ndArch_def by (simp add: fits_open_def getkey_def)
  qed
  have i: "read_ndArch fs fname = Inl IndexError" if c: "fn_CLASS fname = Inl e" for e
  proof -
    have "e = IndexError" using c by (rule fn_CLASS_error)
    then show ?thesis using c unfolding read_ndArch_def by simp
  qed
  have "\<exists>e. read_ndArch fs fname = Inl e"
  proof (cases "fn_CLASS fname")
    case (Inl e)
    then show ?thesis using i by blast
  next
    case (Inr cls)
    then show ?thesis using k by blast
  qed
  then show ?thesis using k i by blast
qed

text \<open>
  C5 as stated fails: the read of a file without \<^verbatim>\<open>CRVAL1\<close> and \<^verbatim>\<open>CDELT1\<close> ends with
  \<^verbatim>\<open>KeyError('CRVAL1')\<close>, and under a name with no class and version with \<^verbatim>\<open>IndexError\<close>;
  neither is a MalformedArchiveError.
\<close>

theorem read_ndArch_no_grid_counterexample:
  "read_ndArch [''spectra/ndArch-GAL-v2.fits'' \<mapsto> archive_no_grid] ''spectra/ndArch-GAL-v2.fits''
     = Inl (KeyError ''CRVAL1'') \<and>
   read_ndArch [''bad.fits'' \<mapsto> archive_no_grid] ''bad.fits'' = Inl IndexError"
  by (simp add: read_eval archive_no_grid_def)

theorem read_ndArch_no_CRVAL1_witness:
  "[''ndArch-STAR-v1.fits'' \<mapsto> archive_no_grid] ''ndArch-STAR-v1.fits'' = Some archive_no_grid \<and>
   header archive_no_grid ''CRVAL1'' = None \<and> header archive_no_grid ''CDELT1'' = None \<and>
   fn_CLASS ''ndArch-STAR-v1.fits'' = Inr ''STAR'' \<and>
   read_ndArch [''ndArch-STAR-v1.fits'' \<mapsto> archive_no_grid] ''ndArch-STAR-v1.fits''
     = Inl (KeyError ''CRVAL1'')"
proof -
  have h: "[''ndArch-STAR-v1.fits'' \<mapsto> archive_no_grid] ''ndArch-STAR-v1.fits'' = Some archive_no_grid"
    "header archive_no_grid ''CRVAL1'' = None" "header archive_no_grid ''CDELT1'' = None"
    by (simp_all add: archive_no_grid_def)
  have c: "fn_CLASS ''ndArch-STAR-v1.fits'' = Inr ''STAR''"
    by (simp add: read_eval)
  show ?thesis
    using h c read_ndArch_no_CRVAL1[of "[''ndArch-STAR-v1.fits'' \<mapsto> archive_no_grid]"
        "''ndArch-STAR-v1.fits''" archive_no_grid]
    by blast
qed

lemma read_axes_rank1: "length shp = 1 \<Longrightarrow> read_axes shp h = Inr (index_defaults shp)"
  by (simp add: read_axes_def)

lemma index_defaults_rank1: "length shp = 1 \<Longrightarrow> st_baselines (index_defaults shp) = []"
  by (cases shp) (simp_all add: index_defaults_def)

text \<open>
  C4. An archive of rank 1 (the wavelength axis alone) whose file name parses and whose
  header has \<^verbatim>\<open>CRVAL1\<close>, \<^verbatim>\<open>CDELT1\<close> and \<^verbatim>\<open>NAXIS1\<close> is read without an exception,
  and the list of baselines returned is empty.
\<close>

theorem read_ndArch_rank1:
  assumes "fs fname = Some f" "length (shape (data f)) = 1" "fn_CLASS fname = Inr cls"
    "header f ''CRVAL1'' = Some c0" "header f ''CDELT1'' = Some c1" "header f ''NAXIS1'' = Some nw"
  shows "\<exists>info. read_ndArch fs fname = Inr (data f, [], info)"
proof -
  obtain ver where v: "fn_VERSION fname = Inr ver" using fn_CLASS_VERSION_ok assms(3) by blast
  have "read_axes (shape (data f)) (header f) = Inr (index_defaults (shape (data f)))"
    using assms(2) by (rule read_axes_rank1)
  then have "\<exists>info. read_ndArch fs fname
      = Inr (data f, st_baselines (index_defaults (shape (data f))), info)"
    using assms v by (intro read_ndArch_InrI) auto
  then show ?thesis using index_defaults_rank1[OF assms(2)] by simp
qed

theorem read_ndArch_rank1_witness:
  "[''ndArch-STAR-v1.fits'' \<mapsto> archive_1d] ''ndArch-STAR-v1.fits'' = Some archive_1d \<and>
   length (shape (data archive_1d)) = 1 \<and> fn_CLASS ''ndArch-STAR-v1.fits'' = Inr ''STAR'' \<and>
   header archive_1d ''CRVAL1'' = Some (HNum 3) \<and> header archive_1d ''CDELT1'' = Some (HNum 1) \<and>
   header archive_1d ''NAXIS1'' = Some (HNum 2) \<and>
   (\<exists>info. read_ndArch [''ndArch-STAR-v1.fits'' \<mapsto> archive_1d] ''ndArch-STAR-v1.fits''
             = Inr (data archive_1d, [], info))"
proof -
  have h: "[''ndArch-STAR-v1.fits'' \<mapsto> archive_1d] ''ndArch-STAR-v1.fits'' = Some archive_1d"
    "length (shape (data archive_1d)) = 1" "fn_CLASS ''ndArch-STAR-v1.fits'' = Inr ''STAR''"
    "header archive_1d ''CRVAL1'' = Some (HNum 3)" "header archive_1d ''CDELT1'' = Some (HNum 1)"
    "header archive_1d ''NAXIS1'' = Some (HNum 2)"
    by (simp_all add: archive_1d_def read_eval)
  show ?thesis
    using h read_ndArch_rank1[of "[''ndArch-STAR-v1.fits'' \<mapsto> archive_1d]"
        "''ndArch-STAR-v1.fits''" archive_1d "''STAR''" "HNum 3" "HNum 1" "HNum 2"]
    by blast
qed

lemma digit_char_inj: "a < 10 \<Longrightarrow> b < 10 \<Longrightarrow> digit_char a = digit_char b \<Longrightarrow> a = b"
proof -
  assume a: "a < 10" and b: "b < 10" and e: "digit_char a = digit_char b"
  have d: "distinct ''0123456789''" by simp
  have "length ''0123456789'' = 10" by simp
  then show "a = b" using a b e d unfolding digit_char_def
    by (metis nth_eq_iff_index_eq)
qed

lemma digit_char_in: "d < 10 \<Longrightarrow> digit_char d \<in> set ''0123456789''"
  unfolding digit_char_def by (rule nth_mem) simp

lemma str_nat_digits: "set (str_nat n) \<subseteq> set ''0123456789''"
proof (induction n rule: str_nat.induct)
  case (1 n)
  show ?case
  proof (cases "n < 10")
    case True
    then show ?thesis using digit_char_in[of n] by (subst str_nat.simps) simp
  next
    case False
    have "n mod 10 < 10" by simp
    then have "digit_char (n mod 10) \<in> set ''0123456789''" by (rule digit_char_in)
    then show ?thesis using False 1 by (subst str_nat.simps) simp
  qed
qed

lemma str_nat_not_Nil [simp]: "str_nat n \<noteq> []"
  by (subst str_nat.simps) simp

lemma str_nat_inj_aux: "str_nat a = str_nat b \<Longrightarrow> a = b"
proof (induction a arbitrary: b rule: str_nat.induct)
  case (1 a)
  show ?case
  proof (cases "a < 10")
    case True
    note a10 = this
    show ?thesis
    proof (cases "b < 10")
      case True
      then show ?thesis using a10 "1.prems" digit_char_inj
        by (simp add: str_nat.simps[of a] str_nat.simps[of b])
    next
      case False
      then have "length (str_nat b) \<ge> 2"
        using str_nat_not_Nil[of "b div 10"]
        by (simp add: str_nat.simps[of b] Suc_le_eq)
      moreover have "length (str_nat a) = 1" using a10 by (simp add: str_nat.simps[of a])
      ultimately show ?thesis using "1.prems" by simp
    qed
  next
    case False
    note a10 = this
    show ?thesis
    proof (cases "b < 10")
      case True
      have "length (str_nat a) \<ge> 2"
        using str_nat_not_Nil[of "a div 10"] a10
        by (simp add: str_nat.simps[of a] Suc_le_eq)
      moreover have "length (str_nat b) = 1" using True by (simp add: str_nat.simps[of b])
      ultimately show ?thesis using "1.prems" by simp
    next
      case False
      have e: "str_nat (a div 10) @ [digit_char (a mod 10)] = str_nat (b div 10) @ [digit_char (b mod 10)]"
        using "1.prems" a10 False by (simp add: str_nat.simps[of a] str_nat.simps[of b])
      then have "str_nat (a div 10) = str_nat (b div 10)" and dd: "digit_char (a mod 10) = digit_char (b mod 10)"
        by simp_all
      then have "a div 10 = b div 10" using "1.IH"[OF a10] by blast
      moreover have "a mod 10 = b mod 10" using dd digit_char_inj[of "a mod 10" "b mod 10"] by simp
      ultimately show ?thesis by (metis div_mult_mod_eq)
    qed
  qed
qed

lemma str_nat_inj [simp]: "str_nat a = str_nat b \<longleftrightarrow> a = b"
  using str_nat_inj_aux by blast

lemma str_nat_1: "str_nat 1 = ''1''"
  by (simp add: str_nat.simps digit_char_def)

lemma str_nat_eq_1 [simp]: "str_nat a = ''1'' \<longleftrightarrow> a = 1"
  using str_nat_inj[of a 1] unfolding str_nat_1 .

lemma str_nat_hd: "c \<notin> set ''0123456789'' \<Longrightarrow> str_nat a @ r \<noteq> c # s"
proof
  assume c: "c \<notin> set ''0123456789''" and e: "str_nat a @ r = c # s"
  obtain d ds where d: "str_nat a = d # ds" using str_nat_not_Nil[of a] by (cases "str_nat a") auto
  then have "d \<in> set ''0123456789''" using str_nat_digits[of a] by auto
  moreover have "d = c" using e d by simp
  ultimately show False using c by simp
qed

lemma str_nat_not_A [simp]: "str_nat a @ r \<noteq> CHR ''A'' # s"
  by (rule str_nat_hd) simp

lemma sep_split_unique:
  "c \<notin> set x \<Longrightarrow> c \<notin> set x' \<Longrightarrow> x @ c # y = x' @ c # y' \<Longrightarrow> x = x' \<and> y = y'"
proof (induction x arbitrary: x')
  case Nil
  then show ?case by (cases x') auto
next
  case (Cons a x)
  then show ?case by (cases x') auto
qed

lemma str_nat_no_underscore: "CHR ''_'' \<notin> set (str_nat a)"
  using str_nat_digits[of a] by auto

lemma key2_inj [simp]:
  "str_nat a @ CHR ''_'' # str_nat j = str_nat b @ CHR ''_'' # str_nat k \<longleftrightarrow> a = b \<and> j = k"
  using sep_split_unique[OF str_nat_no_underscore str_nat_no_underscore, of a "str_nat j" b "str_nat k"]
  by auto

text \<open>
  C9. The class comment promises that an older output file is kept unless
  \<^verbatim>\<open>clobber=True\<close> is given. In \<^verbatim>\<open>io2.py\<close> the constructor's default is
  \<^verbatim>\<open>clobber=True\<close> and \<^verbatim>\<open>write_fiber\<close> sets \<^verbatim>\<open>self.clobber = True\<close> itself: with
  \<^verbatim>\<open>clobber=False\<close> given, \<^verbatim>\<open>write_fiber\<close> replaces the file that is there and writes
  no file with a time stamp, and with no \<^verbatim>\<open>clobber\<close> given \<^verbatim>\<open>write_plate\<close> does the
  same.
\<close>

theorem write_fiber_write_plate_clobber:
  "write_fiber
     (Write_Redmonster_init \<lparr>plate = ''3686'', mjd = ''55268'', fiberid = [7]\<rparr> (Some ''out'') (Some False))
     ''new'' ''2015-07-01_00:00:00'' [''out/redmonster-3686-55268-007.fits'' \<mapsto> ''old'']
     = ([''out/redmonster-3686-55268-007.fits'' \<mapsto> ''new''], None) \<and>
   write_plate
     (Write_Redmonster_init \<lparr>plate = ''3686'', mjd = ''55268'', fiberid = [7]\<rparr> (Some ''out'') None)
     ''new'' ''2015-07-01_00:00:00'' [''out/redmonster-3686-55268.fits'' \<mapsto> ''old'']
     = ([''out/redmonster-3686-55268.fits'' \<mapsto> ''new''], None)"
  by (simp add: write_fiber_def write_plate_def Write_Redmonster_init_def py_get_def fmt_03d_def
      str_nat.simps digit_char_def path_join_def writeto_def after_write_def numeral_2_eq_2)

section \<open>Loops\<close>

lemma fold_err_append:
  "fold_err f (xs @ ys) s = ebind (fold_err f xs s) (fold_err f ys)"
  by (induction xs arbitrary: s) (auto simp: ebind_def split: sum.splits)

lemma fold_err_total:
  "(\<And>i s. i \<in> set xs \<Longrightarrow> \<exists>s'. f i s = Inr s') \<Longrightarrow> \<exists>s'. fold_err f xs s = Inr s'"
proof (induction xs arbitrary: s)
  case Nil
  show ?case by simp
next
  case (Cons x xs)
  obtain s1 where "f x s = Inr s1" using Cons.prems[of x s] by auto
  moreover have "\<exists>s'. fold_err f xs s1 = Inr s'" using Cons by simp
  ultimately show ?case by simp
qed

lemma fold_err_fails:
  "i \<in> set xs \<Longrightarrow> (\<And>s. \<exists>e. f i s = Inl e) \<Longrightarrow> \<exists>e. fold_err f xs s = Inl e"
proof (induction xs arbitrary: s)
  case Nil
  then show ?case by simp
next
  case (Cons x xs)
  show ?case
  proof (cases "f x s")
    case (Inl e)
    then show ?thesis by simp
  next
    case (Inr s1)
    have "x \<noteq> i" using Inr Cons.prems(2)[of s] by auto
    then have "i \<in> set xs" using Cons.prems(1) by simp
    then show ?thesis using Cons.IH[of s1] Cons.prems(2) Inr by simp
  qed
qed

text \<open>An invariant of the passes, and what a pass that is not run leaves alone.\<close>

lemma fold_err_invariant:
  assumes "fold_err f xs s = Inr s'" "P s"
    and "\<And>i a b. i \<in> set xs \<Longrightarrow> P a \<Longrightarrow> f i a = Inr b \<Longrightarrow> P b"
  shows "P s'"
  using assms
proof (induction xs arbitrary: s)
  case Nil
  then show ?case by simp
next
  case (Cons x xs)
  from Cons.prems(1) obtain s1 where s1: "f x s = Inr s1" "fold_err f xs s1 = Inr s'"
    by (auto split: sum.splits)
  have "P s1" using Cons.prems(3)[of x s s1] Cons.prems(2) s1 by simp
  moreover have "\<And>i a b. i \<in> set xs \<Longrightarrow> P a \<Longrightarrow> f i a = Inr b \<Longrightarrow> P b"
    using Cons.prems(3) by (meson list.set_intros(2))
  ultimately show ?case using Cons.IH[OF s1(2)] by blast
qed


lemma fold_err_at:
  assumes "fold_err f xs s = Inr s'" "i \<in> set xs" "distinct xs"
    and refl: "\<And>a. same a a"
    and trans: "\<And>a b c. same a b \<Longrightarrow> same b c \<Longrightarrow> same a c"
    and frame: "\<And>j a b. j \<in> set xs \<Longrightarrow> j \<noteq> i \<Longrightarrow> f j a = Inr b \<Longrightarrow> same a b"
  shows "\<exists>sa sb. f i sa = Inr sb \<and> same s sa \<and> same sb s'"
  using assms(1-3) frame
proof (induction xs arbitrary: s)
  case Nil
  then show ?case by simp
next
  case (Cons x xs)
  from Cons.prems(1) obtain s1 where s1: "f x s = Inr s1" "fold_err f xs s1 = Inr s'"
    by (auto split: sum.splits)
  have fr: "same a b" if "j \<in> set xs" "j \<noteq> i" "f j a = Inr b" for j a b
    using Cons.prems(4)[of j a b] that by simp
  show ?case
  proof (cases "x = i")
    case True
    then have "i \<notin> set xs" using Cons.prems(3) by simp
    have "same s1 s'"
    proof (rule fold_err_invariant[OF s1(2), where P = "same s1"])
      show "same s1 s1" by (rule refl)
      fix j a b assume "j \<in> set xs" "same s1 a" "f j a = Inr b"
      then show "same s1 b" using fr[of j a b] trans \<open>i \<notin> set xs\<close> by blast
    qed
    then show ?thesis using s1(1) True refl by blast
  next
    case False
    then have "i \<in> set xs" "distinct xs" using Cons.prems by auto
    from Cons.IH[OF s1(2) this] fr obtain sa sb where
      "f i sa = Inr sb" "same s1 sa" "same sb s'" by blast
    moreover have "same s s1" using Cons.prems(4)[of x s s1] False s1(1) by simp
    ultimately show ?thesis using trans by blast
  qed
qed

section \<open>One pass of the reader's loop\<close>

lemma read_axis_lengths:
  "read_axis S h n i st = Inr st' \<Longrightarrow>
     length (st_baselines st') = length (st_baselines st) \<and>
     length (st_names st') = length (st_names st) \<and>
     length (st_units st') = length (st_units st) \<and>
     length (st_axistype st') = length (st_axistype st)"
  unfolding read_axis_def Let_def
  by (auto simp: ebind_def split: option.splits if_splits sum.splits)

lemma read_axis_frame:
  "read_axis S h n i st = Inr st' \<Longrightarrow> j \<noteq> i \<Longrightarrow>
     st_baselines st' ! j = st_baselines st ! j \<and>
     st_names st' ! j = st_names st ! j \<and>
     st_units st' ! j = st_units st ! j \<and>
     st_axistype st' ! j = st_axistype st ! j"
  unfolding read_axis_def Let_def
  by (auto simp: ebind_def split: option.splits if_splits sum.splits)

lemma read_axis_names:
  "read_axis S h n i st = Inr st' \<Longrightarrow> i < length (st_names st) \<Longrightarrow> i < length (st_units st) \<Longrightarrow>
     st_names st' ! i = (case h (''CNAME'' @ str_nat (n + 1 - i)) of Some v \<Rightarrow> v | None \<Rightarrow> st_names st ! i) \<and>
     st_units st' ! i = (case h (''CUNIT'' @ str_nat (n + 1 - i)) of Some v \<Rightarrow> v | None \<Rightarrow> st_units st ! i)"
  unfolding read_axis_def Let_def
  by (auto simp: ebind_def split: option.splits if_splits sum.splits)

lemma read_axis_regular:
  "read_axis S h n i st = Inr st' \<Longrightarrow> i < length (st_baselines st) \<Longrightarrow> i < length (st_axistype st) \<Longrightarrow>
   key_in (''CRPIX'' @ str_nat (n + 1 - i)) h \<Longrightarrow> key_in (''CRVAL'' @ str_nat (n + 1 - i)) h \<Longrightarrow>
   key_in (''CDELT'' @ str_nat (n + 1 - i)) h \<Longrightarrow>
     regular_baseline h (str_nat (n + 1 - i)) (S ! i) = Inr (st_baselines st' ! i) \<and>
     st_axistype st' ! i = ''regular''"
  unfolding read_axis_def Let_def
  by (auto simp: ebind_def split: option.splits if_splits sum.splits)

lemma read_axis_families:
  assumes "read_axis S h n i st = Inr st'" "i < length (st_baselines st)" "i < length (st_axistype st)"
    and "\<not> (key_in (''CRPIX'' @ str_nat (n + 1 - i)) h \<and> key_in (''CRVAL'' @ str_nat (n + 1 - i)) h \<and>
           key_in (''CDELT'' @ str_nat (n + 1 - i)) h)"
  shows "(st_baselines st' ! i, st_axistype st' ! i) =
     (if family_test h (pv_base (str_nat (n + 1 - i)) (S ! i))
      then (family_values h (pv_base (str_nat (n + 1 - i)) (S ! i)), ''irregular'')
      else if family_test h (ps_base (str_nat (n + 1 - i)) (S ! i))
      then (family_values h (ps_base (str_nat (n + 1 - i)) (S ! i)), ''labeled'')
      else if family_test h (n_base (str_nat (n + 1 - i)) (S ! i))
      then (family_values h (n_base (str_nat (n + 1 - i)) (S ! i)), ''named'')
      else (st_baselines st ! i, st_axistype st ! i))"
  using assms unfolding read_axis_def Let_def
  by (auto simp: ebind_def split: option.splits if_splits sum.splits)


section \<open>The reader's loop\<close>

lemma index_defaults_lengths:
  "length (st_baselines (index_defaults S)) = length S - 1"
  "length (st_names (index_defaults S)) = length S - 1"
  "length (st_units (index_defaults S)) = length S - 1"
  "length (st_axistype (index_defaults S)) = length S - 1"
  by (simp_all add: index_defaults_def)

lemma index_defaults_nth:
  assumes "i < length S - 1"
  shows "st_baselines (index_defaults S) ! i = map (\<lambda>k. HNum (of_nat k + 1)) [0..<S ! i]"
    "st_names (index_defaults S) ! i = HStr []"
    "st_units (index_defaults S) ! i = HStr []"
    "st_axistype (index_defaults S) ! i = ''index''"
  using assms by (simp_all add: index_defaults_def nth_butlast)

lemma read_axes_lengths:
  assumes "read_axes S h = Inr st"
  shows "length (st_baselines st) = length S - 1 \<and> length (st_names st) = length S - 1 \<and>
     length (st_units st) = length S - 1 \<and> length (st_axistype st) = length S - 1"
proof (rule fold_err_invariant[OF assms[unfolded read_axes_def]])
  show "length (st_baselines (index_defaults S)) = length S - 1 \<and>
    length (st_names (index_defaults S)) = length S - 1 \<and>
    length (st_units (index_defaults S)) = length S - 1 \<and>
    length (st_axistype (index_defaults S)) = length S - 1"
    by (simp add: index_defaults_lengths)
next
  fix i a b
  assume "length (st_baselines a) = length S - 1 \<and> length (st_names a) = length S - 1 \<and>
     length (st_units a) = length S - 1 \<and> length (st_axistype a) = length S - 1"
    and "read_axis S h (length S - 1) i a = Inr b"
  then show "length (st_baselines b) = length S - 1 \<and> length (st_names b) = length S - 1 \<and>
     length (st_units b) = length S - 1 \<and> length (st_axistype b) = length S - 1"
    using read_axis_lengths[of S h "length S - 1" i a b] by simp
qed

lemma read_axes_at:
  assumes "read_axes S h = Inr st" "i < length S - 1"
  shows "\<exists>sa sb. read_axis S h (length S - 1) i sa = Inr sb \<and>
     length (st_baselines sa) = length S - 1 \<and> length (st_names sa) = length S - 1 \<and>
     length (st_units sa) = length S - 1 \<and> length (st_axistype sa) = length S - 1 \<and>
     st_baselines sa ! i = map (\<lambda>k. HNum (of_nat k + 1)) [0..<S ! i] \<and>
     st_names sa ! i = HStr [] \<and> st_units sa ! i = HStr [] \<and> st_axistype sa ! i = ''index'' \<and>
     st_baselines st ! i = st_baselines sb ! i \<and> st_names st ! i = st_names sb ! i \<and>
     st_units st ! i = st_units sb ! i \<and> st_axistype st ! i = st_axistype sb ! i"
proof -
  let ?same = "\<lambda>a b. length (st_baselines a) = length (st_baselines b) \<and>
     length (st_names a) = length (st_names b) \<and> length (st_units a) = length (st_units b) \<and>
     length (st_axistype a) = length (st_axistype b) \<and>
     st_baselines a ! i = st_baselines b ! i \<and> st_names a ! i = st_names b ! i \<and>
     st_units a ! i = st_units b ! i \<and> st_axistype a ! i = st_axistype b ! i"
  have "\<exists>sa sb. read_axis S h (length S - 1) i sa = Inr sb \<and> ?same (index_defaults S) sa \<and> ?same sb st"
  proof (rule fold_err_at[OF assms(1)[unfolded read_axes_def], where same = ?same])
    show "i \<in> set [0..<length S - 1]" using assms(2) by simp
    show "distinct [0..<length S - 1]" by simp
    show "?same a a" for a by simp
    show "?same a c" if "?same a b" "?same b c" for a b c using that by simp
    show "?same a b" if "j \<noteq> i" "read_axis S h (length S - 1) j a = Inr b" for j a b
      using read_axis_frame[OF that(2), of i] read_axis_lengths[OF that(2)] that(1) by simp
  qed
  then obtain sa sb where r: "read_axis S h (length S - 1) i sa = Inr sb"
    and a: "?same (index_defaults S) sa" and b: "?same sb st" by blast
  have la: "length (st_baselines sa) = length S - 1" "length (st_names sa) = length S - 1"
    "length (st_units sa) = length S - 1" "length (st_axistype sa) = length S - 1"
    using a index_defaults_lengths[of S] by auto
  have da: "st_baselines sa ! i = map (\<lambda>k. HNum (of_nat k + 1)) [0..<S ! i]"
    "st_names sa ! i = HStr []" "st_units sa ! i = HStr []" "st_axistype sa ! i = ''index''"
    using a index_defaults_nth[OF assms(2)] by auto
  have eb: "st_baselines st ! i = st_baselines sb ! i" "st_names st ! i = st_names sb ! i"
    "st_units st ! i = st_units sb ! i" "st_axistype st ! i = st_axistype sb ! i"
    using b by auto
  show ?thesis using r la da eb by blast
qed

lemma read_axes_names:
  assumes "read_axes S h = Inr st" "i < length S - 1"
  shows "st_names st ! i
       = (case h (''CNAME'' @ str_nat (length S - i)) of Some v \<Rightarrow> v | None \<Rightarrow> HStr [])"
    and "st_units st ! i
       = (case h (''CUNIT'' @ str_nat (length S - i)) of Some v \<Rightarrow> v | None \<Rightarrow> HStr [])"
proof -
  have ax: "length S - 1 + 1 - i = length S - i" using assms(2) by simp
  obtain sa sb where r: "read_axis S h (length S - 1) i sa = Inr sb"
    and l: "length (st_names sa) = length S - 1" "length (st_units sa) = length S - 1"
    and d: "st_names sa ! i = HStr []" "st_units sa ! i = HStr []"
    and e: "st_names st ! i = st_names sb ! i" "st_units st ! i = st_units sb ! i"
    using read_axes_at[OF assms] by blast
  show "st_names st ! i
       = (case h (''CNAME'' @ str_nat (length S - i)) of Some v \<Rightarrow> v | None \<Rightarrow> HStr [])"
    and "st_units st ! i
       = (case h (''CUNIT'' @ str_nat (length S - i)) of Some v \<Rightarrow> v | None \<Rightarrow> HStr [])"
    using read_axis_names[OF r] l d e assms(2) ax by (simp_all split: option.splits)
qed

lemma read_axes_regular:
  assumes "read_axes S h = Inr st" "i < length S - 1"
    and "key_in (''CRPIX'' @ str_nat (length S - i)) h" "key_in (''CRVAL'' @ str_nat (length S - i)) h"
      "key_in (''CDELT'' @ str_nat (length S - i)) h"
  shows "regular_baseline h (str_nat (length S - i)) (S ! i) = Inr (st_baselines st ! i) \<and>
     st_axistype st ! i = ''regular''"
proof -
  have ax: "length S - 1 + 1 - i = length S - i" using assms(2) by simp
  obtain sa sb where r: "read_axis S h (length S - 1) i sa = Inr sb"
    and l: "length (st_baselines sa) = length S - 1" "length (st_axistype sa) = length S - 1"
    and e: "st_baselines st ! i = st_baselines sb ! i" "st_axistype st ! i = st_axistype sb ! i"
    using read_axes_at[OF assms(1,2)] by blast
  show ?thesis
    using read_axis_regular[OF r] l e assms ax by simp
qed

lemma read_axes_families:
  assumes "read_axes S h = Inr st" "i < length S - 1"
    and "\<not> (key_in (''CRPIX'' @ str_nat (length S - i)) h \<and> key_in (''CRVAL'' @ str_nat (length S - i)) h \<and>
           key_in (''CDELT'' @ str_nat (length S - i)) h)"
  shows "(st_baselines st ! i, st_axistype st ! i) =
     (if family_test h (pv_base (str_nat (length S - i)) (S ! i))
      then (family_values h (pv_base (str_nat (length S - i)) (S ! i)), ''irregular'')
      else if family_test h (ps_base (str_nat (length S - i)) (S ! i))
      then (family_values h (ps_base (str_nat (length S - i)) (S ! i)), ''labeled'')
      else if family_test h (n_base (str_nat (length S - i)) (S ! i))
      then (family_values h (n_base (str_nat (length S - i)) (S ! i)), ''named'')
      else (map (\<lambda>k. HNum (of_nat k + 1)) [0..<S ! i], ''index''))"
proof -
  have ax: "length S - 1 + 1 - i = length S - i" using assms(2) by simp
  obtain sa sb where r: "read_axis S h (length S - 1) i sa = Inr sb"
    and l: "length (st_baselines sa) = length S - 1" "length (st_axistype sa) = length S - 1"
    and d: "st_baselines sa ! i = map (\<lambda>k. HNum (of_nat k + 1)) [0..<S ! i]"
      "st_axistype sa ! i = ''index''"
    and e: "st_baselines st ! i = st_baselines sb ! i" "st_axistype st ! i = st_axistype sb ! i"
    using read_axes_at[OF assms(1,2)] by blast
  have "(st_baselines sb ! i, st_axistype sb ! i) =
     (if family_test h (pv_base (str_nat (length S - i)) (S ! i))
      then (family_values h (pv_base (str_nat (length S - i)) (S ! i)), ''irregular'')
      else if family_test h (ps_base (str_nat (length S - i)) (S ! i))
      then (family_values h (ps_base (str_nat (length S - i)) (S ! i)), ''labeled'')
      else if family_test h (n_base (str_nat (length S - i)) (S ! i))
      then (family_values h (n_base (str_nat (length S - i)) (S ! i)), ''named'')
      else (st_baselines sa ! i, st_axistype sa ! i))"
    using read_axis_families[OF r] l assms(2,3) unfolding ax by simp
  then show ?thesis using d e by simp
qed

section \<open>Detection of the axis kind\<close>

lemma family_test_iff: "family_test h base \<longleftrightarrow> (\<forall>k \<in> set base. h k \<noteq> None)"
  unfolding family_test_def key_in_def by (induction base) auto

lemma pv_base_missing:
  "j < L \<Longrightarrow> h (''PV'' @ ax @ ''_'' @ str_nat (j + 1)) = None \<Longrightarrow> \<not> family_test h (pv_base ax L)"
  unfolding family_test_iff pv_base_def by auto



text \<open>
  C3. When one key \<^verbatim>\<open>PV{ax}_{j}\<close>, with \<open>j\<close> from 1 to the length of the axis, is not in
  the header, the axis of the parameter \<open>i\<close> is not read as irregular: it is regular when
  \<^verbatim>\<open>CRPIX\<close>, \<^verbatim>\<open>CRVAL\<close> and \<^verbatim>\<open>CDELT\<close> of the axis are there, else labeled when every
  \<^verbatim>\<open>PS\<close> key is there, else named when every \<^verbatim>\<open>N\<close> key is there, and else an index
  axis, with the baseline 1, 2, ..., up to the length of the axis.
\<close>

theorem read_ndArch_incomplete_PV:
  assumes "read_ndArch fs fname = Inr (d, bl, info)" "fs fname = Some f"
    and "i < length (shape d) - 1" "j < shape d ! i"
    and "header f (''PV'' @ str_nat (length (shape d) - i) @ ''_'' @ str_nat (j + 1)) = None"
  shows "\<exists>kinds. par_axistype info = Some kinds \<and> kinds ! i \<noteq> ''irregular'' \<and>
     kinds ! i =
       (if key_in (''CRPIX'' @ str_nat (length (shape d) - i)) (header f) \<and>
           key_in (''CRVAL'' @ str_nat (length (shape d) - i)) (header f) \<and>
           key_in (''CDELT'' @ str_nat (length (shape d) - i)) (header f) then ''regular''
        else if \<forall>k < shape d ! i.
            key_in (''PS'' @ str_nat (length (shape d) - i) @ ''_'' @ str_nat (k + 1)) (header f)
          then ''labeled''
        else if \<forall>k < shape d ! i.
            key_in (''N'' @ str_nat (length (shape d) - i) @ ''_'' @ str_nat (k + 1)) (header f)
          then ''named''
        else ''index'') \<and>
     (kinds ! i = ''index'' \<longrightarrow> bl ! i = map (\<lambda>k. HNum (of_nat k + 1)) [0..<shape d ! i])"
proof -
  from assms(1) obtain st where st: "read_axes (shape (data f)) (header f) = Inr st"
    and d: "d = data f" and bl: "bl = st_baselines st"
    and k: "par_axistype info = Some (st_axistype st)"
    using assms(2) by (auto elim!: read_ndArch_InrD)
  let ?ax = "str_nat (length (shape d) - i)"
  let ?L = "shape d ! i"
  let ?reg = "key_in (''CRPIX'' @ ?ax) (header f) \<and> key_in (''CRVAL'' @ ?ax) (header f) \<and>
           key_in (''CDELT'' @ ?ax) (header f)"
  have nopv: "\<not> family_test (header f) (pv_base ?ax ?L)"
    using assms(4,5) by (rule pv_base_missing)
  have ps: "family_test (header f) (ps_base ?ax ?L)
      \<longleftrightarrow> (\<forall>k < ?L. key_in (''PS'' @ ?ax @ ''_'' @ str_nat (k + 1)) (header f))"
    unfolding family_test_iff ps_base_def key_in_def by auto
  have nn: "family_test (header f) (n_base ?ax ?L)
      \<longleftrightarrow> (\<forall>k < ?L. key_in (''N'' @ ?ax @ ''_'' @ str_nat (k + 1)) (header f))"
    unfolding family_test_iff n_base_def key_in_def by auto
  show ?thesis
  proof (cases ?reg)
    case True
    then have "st_axistype st ! i = ''regular''"
      using read_axes_regular[of "shape (data f)" "header f" st i] st assms(3) d by simp
    then show ?thesis using True k by simp
  next
    case False
    have "(st_baselines st ! i, st_axistype st ! i) =
     (if family_test (header f) (ps_base ?ax ?L)
      then (family_values (header f) (ps_base ?ax ?L), ''labeled'')
      else if family_test (header f) (n_base ?ax ?L)
      then (family_values (header f) (n_base ?ax ?L), ''named'')
      else (map (\<lambda>k. HNum (of_nat k + 1)) [0..<?L], ''index''))"
      using read_axes_families[of "shape (data f)" "header f" st i] st assms(3) d False nopv
      by simp
    then show ?thesis using False k bl unfolding ps nn
      by (auto split: if_splits)
  qed
qed


lemmas axis_eval = read_axis_def regular_baseline_def family_test_def family_values_def
  pv_base_def ps_base_def n_base_def key_in_def num_of_def str_nat.simps digit_char_def
  numeral_2_eq_2 numeral_3_eq_3

lemma read_archive_regular:
  "read_ndArch [''ndArch-T-v0.fits'' \<mapsto> archive_regular] ''ndArch-T-v0.fits''
     = Inr (data archive_regular, [[HNum 5, HNum 7, HNum 9]],
         \<lparr>filename = Some ''ndArch-T-v0.fits'', class_name = Some ''T'', version = Some ''v0'',
          coeff0 = Some (HNum 3), coeff1 = Some (HNum 1), nwave = Some (HNum 2),
          fluxunit = Some (HStr []), par_names = Some [HStr []], par_units = Some [HStr []],
          par_axistype = Some [''regular'']\<rparr>)"
  by (simp add: read_eval axis_eval archive_regular_def)

lemma read_archive_partial_pv:
  "read_ndArch [''ndArch-T-v0.fits'' \<mapsto> archive_partial_pv] ''ndArch-T-v0.fits''
     = Inr (data archive_partial_pv, [[HNum 1, HNum 2]],
         \<lparr>filename = Some ''ndArch-T-v0.fits'', class_name = Some ''T'', version = Some ''v0'',
          coeff0 = Some (HNum 3), coeff1 = Some (HNum 1), nwave = Some (HNum 3),
          fluxunit = Some (HStr []), par_names = Some [HStr []], par_units = Some [HStr []],
          par_axistype = Some [''index'']\<rparr>)"
  by (simp add: read_eval axis_eval archive_partial_pv_def)



theorem read_ndArch_incomplete_PV_witness:
  "read_ndArch [''ndArch-T-v0.fits'' \<mapsto> archive_partial_pv] ''ndArch-T-v0.fits''
     = Inr (data archive_partial_pv, [[HNum 1, HNum 2]],
         \<lparr>filename = Some ''ndArch-T-v0.fits'', class_name = Some ''T'', version = Some ''v0'',
          coeff0 = Some (HNum 3), coeff1 = Some (HNum 1), nwave = Some (HNum 3),
          fluxunit = Some (HStr []), par_names = Some [HStr []], par_units = Some [HStr []],
          par_axistype = Some [''index'']\<rparr>) \<and>
   header archive_partial_pv ''PV2_1'' = Some (HNum 4) \<and>
   header archive_partial_pv ''PV2_2'' = None \<and>
   (\<exists>kinds. Some [''index''] = Some kinds \<and> kinds ! 0 \<noteq> ''irregular'')"
proof -
  have f: "[''ndArch-T-v0.fits'' \<mapsto> archive_partial_pv] ''ndArch-T-v0.fits'' = Some archive_partial_pv"
    by simp
  have h: "0 < length (shape (data archive_partial_pv)) - 1"
    "1 < shape (data archive_partial_pv) ! 0"
    "header archive_partial_pv (''PV'' @ str_nat (length (shape (data archive_partial_pv)) - 0)
        @ ''_'' @ str_nat (1 + 1)) = None"
    by (simp_all add: archive_partial_pv_def str_nat.simps digit_char_def)
  have k: "header archive_partial_pv ''PV2_1'' = Some (HNum 4)"
    "header archive_partial_pv ''PV2_2'' = None"
    by (simp_all add: archive_partial_pv_def)
  have "\<exists>kinds. Some [''index''] = Some kinds \<and> kinds ! 0 \<noteq> ''irregular''"
    using read_ndArch_incomplete_PV[of "[''ndArch-T-v0.fits'' \<mapsto> archive_partial_pv]"
        "''ndArch-T-v0.fits''" "data archive_partial_pv" "[[HNum 1, HNum 2]]"
        "\<lparr>filename = Some ''ndArch-T-v0.fits'', class_name = Some ''T'', version = Some ''v0'',
          coeff0 = Some (HNum 3), coeff1 = Some (HNum 1), nwave = Some (HNum 3),
          fluxunit = Some (HStr []), par_names = Some [HStr []], par_units = Some [HStr []],
          par_axistype = Some [''index'']\<rparr>"
        archive_partial_pv 0 1, OF read_archive_partial_pv f h]
    by auto
  then show ?thesis using read_archive_partial_pv k by blast
qed

section \<open>The keys of an axis\<close>

lemma str_nat_eq_1' [simp]: "''1'' = str_nat a \<longleftrightarrow> a = 1"
  by (metis str_nat_eq_1)

lemma str_nat_not_A' [simp]: "CHR ''A'' # s \<noteq> str_nat a @ r"
  by (metis str_nat_not_A)



lemma in_axis_keys:
  "k \<in> axis_keys a \<longleftrightarrow>
     k = ''CNAME'' @ str_nat a \<or> k = ''CUNIT'' @ str_nat a \<or> k = ''CRPIX'' @ str_nat a \<or>
     k = ''CRVAL'' @ str_nat a \<or> k = ''CDELT'' @ str_nat a \<or>
     (\<exists>j. k = ''PV'' @ str_nat a @ ''_'' @ str_nat j) \<or>
     (\<exists>j. k = ''PS'' @ str_nat a @ ''_'' @ str_nat j) \<or>
     (\<exists>j. k = ''N'' @ str_nat a @ ''_'' @ str_nat j)"
  unfolding axis_keys_def by blast

lemma base_length [simp]:
  "length (pv_base ax L) = L" "length (ps_base ax L) = L" "length (n_base ax L) = L"
  unfolding pv_base_def ps_base_def n_base_def by simp_all

lemma wavelength_keys_not_axis:
  assumes "a \<noteq> 1"
  shows "''CNAME1'' \<notin> axis_keys a" "''CUNIT1'' \<notin> axis_keys a" "''CRPIX1'' \<notin> axis_keys a"
    "''CRVAL1'' \<notin> axis_keys a" "''CDELT1'' \<notin> axis_keys a"
  using assms unfolding in_axis_keys by simp_all


lemma base_subset_axis_keys:
  "set (pv_base (str_nat a) L) \<subseteq> axis_keys a"
  "set (ps_base (str_nat a) L) \<subseteq> axis_keys a"
  "set (n_base (str_nat a) L) \<subseteq> axis_keys a"
  unfolding pv_base_def ps_base_def n_base_def by (auto simp: in_axis_keys)

lemma fixed_keys_not_axis:
  "''BUNIT'' \<notin> axis_keys a" "''SIMPLE'' \<notin> axis_keys a" "''BITPIX'' \<notin> axis_keys a"
  "''NAXIS'' \<notin> axis_keys a" "''EXTEND'' \<notin> axis_keys a" "''NAXIS'' @ str_nat m \<notin> axis_keys a"
  unfolding in_axis_keys by simp_all


lemma base_distinct:
  "distinct (pv_base ax L)" "distinct (ps_base ax L)" "distinct (n_base ax L)"
  unfolding pv_base_def ps_base_def n_base_def by (simp_all add: distinct_map inj_on_def)

lemma base_nth:
  "j < L \<Longrightarrow> pv_base ax L ! j = ''PV'' @ ax @ ''_'' @ str_nat (j + 1)"
  "j < L \<Longrightarrow> ps_base ax L ! j = ''PS'' @ ax @ ''_'' @ str_nat (j + 1)"
  "j < L \<Longrightarrow> n_base ax L ! j = ''N'' @ ax @ ''_'' @ str_nat (j + 1)"
  unfolding pv_base_def ps_base_def n_base_def by simp_all

lemma base_disjoint:
  "k \<in> set (pv_base ax L) \<Longrightarrow> k \<notin> set (ps_base ax L') \<and> k \<notin> set (n_base ax L')"
  "k \<in> set (ps_base ax L) \<Longrightarrow> k \<notin> set (pv_base ax L') \<and> k \<notin> set (n_base ax L')"
  "k \<in> set (n_base ax L) \<Longrightarrow> k \<notin> set (pv_base ax L') \<and> k \<notin> set (ps_base ax L')"
  unfolding pv_base_def ps_base_def n_base_def by auto


lemma axis_keys_disjoint:
  assumes "a \<noteq> b" "k \<in> axis_keys a"
  shows "k \<notin> axis_keys b"
  using assms(2) unfolding in_axis_keys[of k a]
  by (elim disjE exE; simp add: in_axis_keys assms(1))

section \<open>One pass of the writer's loop\<close>

lemma py_get_nat: "py_get xs (int j) = (if j < length xs then Inr (xs ! j) else Inl IndexError)"
  by (simp add: py_get_def)

lemma py_get_0: "py_get xs 0 = (if 0 < length xs then Inr (xs ! 0) else Inl IndexError)"
  using py_get_nat[of xs 0] by simp

lemma py_get_1: "py_get xs 1 = (if 1 < length xs then Inr (xs ! 1) else Inl IndexError)"
  using py_get_nat[of xs 1] by simp

lemma fold_err_error:
  "fold_err f xs s = Inl e \<Longrightarrow> \<exists>i \<in> set xs. \<exists>a. f i a = Inl e"
proof (induction xs arbitrary: s)
  case Nil
  then show ?case by simp
next
  case (Cons x xs)
  then show ?case by (cases "f x s") auto
qed

lemma family_step:
  "ebind (py_get B (int i)) (\<lambda>b. ebind (py_get b (int j)) (\<lambda>v. Inr (h(k \<mapsto> v)))) = Inr h'
     \<longleftrightarrow> i < length B \<and> j < length (B ! i) \<and> h' = h(k \<mapsto> B ! i ! j)"
  by (auto simp: py_get_nat)

lemma family_step_error:
  "ebind (py_get B (int i)) (\<lambda>b. ebind (py_get b (int j)) (\<lambda>v. Inr (h(k \<mapsto> v)))) = Inl e
     \<Longrightarrow> e = IndexError"
  by (auto simp: py_get_nat split: if_splits)

lemma write_family_error: "write_family base B i L h = Inl e \<Longrightarrow> e = IndexError"
  unfolding write_family_def using fold_err_error family_step_error by fast

lemma write_family_ok:
  assumes "i < length B" "L \<le> length (B ! i)"
  shows "\<exists>c. write_family base B i L h = Inr c"
  unfolding write_family_def
proof (rule fold_err_total)
  fix j s assume "j \<in> set [0..<L]"
  then have "j < length (B ! i)" using assms(2) by simp
  then show "\<exists>s'. ebind (py_get B (int i))
      (\<lambda>b. ebind (py_get b (int j)) (\<lambda>v. Inr (s(base ! j \<mapsto> v)))) = Inr s'"
    using assms(1) by (simp add: family_step)
qed

lemma write_family_frame:
  assumes "write_family base B i L h = Inr c" "L \<le> length base" "k \<notin> set base"
  shows "c k = h k"
proof (rule fold_err_invariant[OF assms(1)[unfolded write_family_def], where P = "\<lambda>c. c k = h k"])
  show "h k = h k" by simp
next
  fix j a b
  assume j: "j \<in> set [0..<L]" and a: "a k = h k"
    and s: "ebind (py_get B (int i)) (\<lambda>b. ebind (py_get b (int j)) (\<lambda>v. Inr (a(base ! j \<mapsto> v)))) = Inr b"
  have "base ! j \<noteq> k" using j assms(2,3) by (metis atLeastLessThan_iff less_le_trans nth_mem set_upt)
  then show "b k = h k" using s a unfolding family_step by simp
qed

lemma write_family_value:
  assumes "write_family base B i L h = Inr c" "distinct base" "L \<le> length base" "j < L"
  shows "i < length B \<and> j < length (B ! i) \<and> c (base ! j) = Some (B ! i ! j)"
proof -
  let ?same = "\<lambda>a b::header. a (base ! j) = b (base ! j)"
  let ?f = "\<lambda>j hd. ebind (py_get B (int i)) (\<lambda>b. ebind (py_get b (int j)) (\<lambda>v. Inr (hd(base ! j \<mapsto> v))))"
  have "\<exists>sa sb. ?f j sa = Inr sb \<and> ?same h sa \<and> ?same sb c"
  proof (rule fold_err_at[OF assms(1)[unfolded write_family_def], where same = ?same])
    show "j \<in> set [0..<L]" using assms(4) by simp
    show "distinct [0..<L]" by simp
    show "?same a a" for a by simp
    show "?same a d" if "?same a b" "?same b d" for a b d using that by simp
    show "?same a b" if "j' \<in> set [0..<L]" "j' \<noteq> j" "?f j' a = Inr b" for j' a b
    proof -
      have "j' < length base" "j < length base" using that(1) assms(3,4) by simp_all
      then have "base ! j' \<noteq> base ! j" using assms(2) that(2) by (simp add: nth_eq_iff_index_eq)
      then show ?thesis using that(3) unfolding family_step by simp
    qed
  qed
  then obtain sa sb where "?f j sa = Inr sb" "?same sb c" by blast
  then show ?thesis unfolding family_step by auto
qed

lemma write_family_needs:
  assumes "write_family base B i L h = Inr c" "0 < L"
  shows "i < length B \<and> L \<le> length (B ! i)"
proof -
  let ?f = "\<lambda>j hd. ebind (py_get B (int i)) (\<lambda>b. ebind (py_get b (int j)) (\<lambda>v. Inr (hd(base ! j \<mapsto> v))))"
  have "\<exists>sa sb. ?f (L - 1) sa = Inr sb \<and> True \<and> True"
  proof (rule fold_err_at[OF assms(1)[unfolded write_family_def], where same = "\<lambda>a b. True"])
    show "L - 1 \<in> set [0..<L]" using assms(2) by simp
    show "distinct [0..<L]" by simp
  qed simp_all
  then obtain sa sb where "?f (L - 1) sa = Inr sb" by blast
  then have "i < length B \<and> L - 1 < length (B ! i)" unfolding family_step by simp
  then show ?thesis using assms(2) by auto
qed


text \<open>The header after the name and the unit of the axis are set.\<close>

lemma write_axis_InrD:
  assumes "write_axis S B I n i h = Inr h'"
  obtains ks h2 where "par_axistype I = Some ks" "i < length ks"
    "\<And>k. k \<noteq> ''CNAME'' @ str_nat (n + 1 - i) \<Longrightarrow> k \<noteq> ''CUNIT'' @ str_nat (n + 1 - i) \<Longrightarrow> h2 k = h k"
    "\<And>ns. par_names I = Some ns \<Longrightarrow> i < length ns"
    "\<And>us. par_units I = Some us \<Longrightarrow> i < length us"
    "h2 (''CNAME'' @ str_nat (n + 1 - i))
       = (case par_names I of None \<Rightarrow> h (''CNAME'' @ str_nat (n + 1 - i)) | Some ns \<Rightarrow> Some (ns ! i))"
    "h2 (''CUNIT'' @ str_nat (n + 1 - i))
       = (case par_units I of None \<Rightarrow> h (''CUNIT'' @ str_nat (n + 1 - i)) | Some us \<Rightarrow> Some (us ! i))"
    "strip (ks ! i) = ''regular'' \<Longrightarrow>
       i < length B \<and> 1 < length (B ! i) \<and>
       (\<exists>x0 x1. num_of (B ! i ! 0) = Inr x0 \<and> num_of (B ! i ! 1) = Inr x1 \<and>
          h' = h2(''CRPIX'' @ str_nat (n + 1 - i) \<mapsto> HNum 1,
                  ''CRVAL'' @ str_nat (n + 1 - i) \<mapsto> B ! i ! 0,
                  ''CDELT'' @ str_nat (n + 1 - i) \<mapsto> HNum (x1 - x0)))"
    "strip (ks ! i) \<noteq> ''regular'' \<Longrightarrow> strip (ks ! i) = ''irregular'' \<Longrightarrow>
       write_family (pv_base (str_nat (n + 1 - i)) (S ! i)) B i (S ! i) h2 = Inr h'"
    "strip (ks ! i) \<noteq> ''regular'' \<Longrightarrow> strip (ks ! i) \<noteq> ''irregular'' \<Longrightarrow>
       strip (ks ! i) = ''labeled'' \<Longrightarrow>
       write_family (ps_base (str_nat (n + 1 - i)) (S ! i)) B i (S ! i) h2 = Inr h'"
    "strip (ks ! i) \<noteq> ''regular'' \<Longrightarrow> strip (ks ! i) \<noteq> ''irregular'' \<Longrightarrow>
       strip (ks ! i) \<noteq> ''labeled'' \<Longrightarrow> strip (ks ! i) = ''named'' \<Longrightarrow>
       write_family (n_base (str_nat (n + 1 - i)) (S ! i)) B i (S ! i) h2 = Inr h'"
    "strip (ks ! i) \<noteq> ''regular'' \<Longrightarrow> strip (ks ! i) \<noteq> ''irregular'' \<Longrightarrow>
       strip (ks ! i) \<noteq> ''labeled'' \<Longrightarrow> strip (ks ! i) \<noteq> ''named'' \<Longrightarrow> h' = h2"
proof -
  let ?ax = "str_nat (n + 1 - i)"
  obtain h1 where h1: "(case par_names I of None \<Rightarrow> Inr h
             | Some ns \<Rightarrow> ebind (py_get ns (int i)) (\<lambda>v. Inr (h(''CNAME'' @ ?ax \<mapsto> v)))) = Inr h1"
    using assms unfolding write_axis_def Let_def by (auto simp: ebind_def split: sum.splits)
  obtain h2 where h2: "(case par_units I of None \<Rightarrow> Inr h1
             | Some us \<Rightarrow> ebind (py_get us (int i)) (\<lambda>v. Inr (h1(''CUNIT'' @ ?ax \<mapsto> v)))) = Inr h2"
    using assms h1 unfolding write_axis_def Let_def by (auto simp: ebind_def split: sum.splits)
  obtain ks where ks: "par_axistype I = Some ks"
    using assms h1 h2 unfolding write_axis_def Let_def
    by (cases "par_axistype I") (auto simp: getkey_def)
  have i: "i < length ks"
    using assms h1 h2 ks unfolding write_axis_def Let_def
    by (auto simp: getkey_def py_get_nat split: if_splits)
  have rest: "(if strip (ks ! i) = ''regular'' then
        ebind (py_get B (int i)) (\<lambda>b.
        ebind (py_get b 0) (\<lambda>b0.
        ebind (py_get b 1) (\<lambda>b1.
        ebind (hsub b1 b0) (\<lambda>d.
        Inr (h2(''CRPIX'' @ ?ax \<mapsto> HNum 1, ''CRVAL'' @ ?ax \<mapsto> b0, ''CDELT'' @ ?ax \<mapsto> d))))))
      else if strip (ks ! i) = ''irregular'' then
        write_family (pv_base ?ax (S ! i)) B i (S ! i) h2
      else if strip (ks ! i) = ''labeled'' then
        write_family (ps_base ?ax (S ! i)) B i (S ! i) h2
      else if strip (ks ! i) = ''named'' then
        write_family (n_base ?ax (S ! i)) B i (S ! i) h2
      else Inr h2) = Inr h'"
    using assms h1 h2 ks i unfolding write_axis_def Let_def
    by (simp add: getkey_def py_get_nat)
  have n1: "\<And>ns. par_names I = Some ns \<Longrightarrow> i < length ns"
    using h1 by (auto simp: py_get_nat split: if_splits)
  have u1: "\<And>us. par_units I = Some us \<Longrightarrow> i < length us"
    using h2 by (auto simp: py_get_nat split: if_splits)
  have h1v: "h1 = (case par_names I of None \<Rightarrow> h | Some ns \<Rightarrow> h(''CNAME'' @ ?ax \<mapsto> ns ! i))"
    using h1 by (auto simp: py_get_nat split: if_splits option.splits)
  have h2v: "h2 = (case par_units I of None \<Rightarrow> h1 | Some us \<Rightarrow> h1(''CUNIT'' @ ?ax \<mapsto> us ! i))"
    using h2 by (auto simp: py_get_nat split: if_splits option.splits)
  show ?thesis
  proof (rule that[OF ks i, of h2])
    show "h2 k = h k" if "k \<noteq> ''CNAME'' @ ?ax" "k \<noteq> ''CUNIT'' @ ?ax" for k
      using that unfolding h2v h1v by (auto split: option.splits)
    show "h2 (''CNAME'' @ ?ax) = (case par_names I of None \<Rightarrow> h (''CNAME'' @ ?ax) | Some ns \<Rightarrow> Some (ns ! i))"
      unfolding h2v h1v by (auto split: option.splits)
    show "h2 (''CUNIT'' @ ?ax) = (case par_units I of None \<Rightarrow> h (''CUNIT'' @ ?ax) | Some us \<Rightarrow> Some (us ! i))"
      unfolding h2v h1v by (auto split: option.splits)
    show "i < length B \<and> 1 < length (B ! i) \<and>
       (\<exists>x0 x1. num_of (B ! i ! 0) = Inr x0 \<and> num_of (B ! i ! 1) = Inr x1 \<and>
          h' = h2(''CRPIX'' @ ?ax \<mapsto> HNum 1, ''CRVAL'' @ ?ax \<mapsto> B ! i ! 0,
                  ''CDELT'' @ ?ax \<mapsto> HNum (x1 - x0)))" if "strip (ks ! i) = ''regular''"
      using rest that
      by (auto simp: py_get_nat py_get_0 py_get_1 hsub_def ebind_def split: if_splits sum.splits)
  qed (use rest n1 u1 in simp_all)
qed


lemma strip_kinds [simp]:
  "strip ''regular'' = ''regular''" "strip ''irregular'' = ''irregular''"
  "strip ''labeled'' = ''labeled''" "strip ''named'' = ''named''" "strip ''index'' = ''index''"
  by (simp_all add: strip_def is_space_def)

lemma axis_keys_names:
  "''CNAME'' @ str_nat a \<in> axis_keys a" "''CUNIT'' @ str_nat a \<in> axis_keys a"
  "''CRPIX'' @ str_nat a \<in> axis_keys a" "''CRVAL'' @ str_nat a \<in> axis_keys a"
  "''CDELT'' @ str_nat a \<in> axis_keys a"
  unfolding in_axis_keys by simp_all

lemma write_axis_unchanged:
  assumes "write_axis S B I n i h = Inr h'" "par_axistype I = Some ks"
    and "k \<noteq> ''CNAME'' @ str_nat (n + 1 - i)" "k \<noteq> ''CUNIT'' @ str_nat (n + 1 - i)"
    and "k \<notin> (if strip (ks ! i) = ''regular''
               then {''CRPIX'' @ str_nat (n + 1 - i), ''CRVAL'' @ str_nat (n + 1 - i),
                     ''CDELT'' @ str_nat (n + 1 - i)}
               else if strip (ks ! i) = ''irregular'' then set (pv_base (str_nat (n + 1 - i)) (S ! i))
               else if strip (ks ! i) = ''labeled'' then set (ps_base (str_nat (n + 1 - i)) (S ! i))
               else if strip (ks ! i) = ''named'' then set (n_base (str_nat (n + 1 - i)) (S ! i))
               else {})"
  shows "h' k = h k"
proof -
  from assms(1) obtain ks' h2 where ks': "par_axistype I = Some ks'"
    and h2: "h2 k = h k"
    and reg: "strip (ks' ! i) = ''regular'' \<Longrightarrow>
       (\<exists>x0 x1. h' = h2(''CRPIX'' @ str_nat (n + 1 - i) \<mapsto> HNum 1,
                  ''CRVAL'' @ str_nat (n + 1 - i) \<mapsto> B ! i ! 0,
                  ''CDELT'' @ str_nat (n + 1 - i) \<mapsto> HNum (x1 - x0)))"
    and pv: "strip (ks' ! i) \<noteq> ''regular'' \<Longrightarrow> strip (ks' ! i) = ''irregular'' \<Longrightarrow>
       write_family (pv_base (str_nat (n + 1 - i)) (S ! i)) B i (S ! i) h2 = Inr h'"
    and ps: "strip (ks' ! i) \<noteq> ''regular'' \<Longrightarrow> strip (ks' ! i) \<noteq> ''irregular'' \<Longrightarrow>
       strip (ks' ! i) = ''labeled'' \<Longrightarrow>
       write_family (ps_base (str_nat (n + 1 - i)) (S ! i)) B i (S ! i) h2 = Inr h'"
    and nn: "strip (ks' ! i) \<noteq> ''regular'' \<Longrightarrow> strip (ks' ! i) \<noteq> ''irregular'' \<Longrightarrow>
       strip (ks' ! i) \<noteq> ''labeled'' \<Longrightarrow> strip (ks' ! i) = ''named'' \<Longrightarrow>
       write_family (n_base (str_nat (n + 1 - i)) (S ! i)) B i (S ! i) h2 = Inr h'"
    and ix: "strip (ks' ! i) \<noteq> ''regular'' \<Longrightarrow> strip (ks' ! i) \<noteq> ''irregular'' \<Longrightarrow>
       strip (ks' ! i) \<noteq> ''labeled'' \<Longrightarrow> strip (ks' ! i) \<noteq> ''named'' \<Longrightarrow> h' = h2"
    using assms(3,4) by (elim write_axis_InrD) blast
  have e: "ks' = ks" using ks' assms(2) by simp
  consider (r) "strip (ks ! i) = ''regular''"
    | (v) "strip (ks ! i) \<noteq> ''regular''" "strip (ks ! i) = ''irregular''"
    | (s) "strip (ks ! i) \<noteq> ''regular''" "strip (ks ! i) \<noteq> ''irregular''" "strip (ks ! i) = ''labeled''"
    | (m) "strip (ks ! i) \<noteq> ''regular''" "strip (ks ! i) \<noteq> ''irregular''"
          "strip (ks ! i) \<noteq> ''labeled''" "strip (ks ! i) = ''named''"
    | (x) "strip (ks ! i) \<noteq> ''regular''" "strip (ks ! i) \<noteq> ''irregular''"
          "strip (ks ! i) \<noteq> ''labeled''" "strip (ks ! i) \<noteq> ''named''"
    by blast
  then show ?thesis
  proof cases
    case r
    then show ?thesis using reg assms(5) h2 unfolding e by auto
  next
    case v
    then show ?thesis using write_family_frame[OF pv[unfolded e, OF v], of k] assms(5) h2 by simp
  next
    case s
    then show ?thesis using write_family_frame[OF ps[unfolded e, OF s], of k] assms(5) h2 by simp
  next
    case m
    then show ?thesis using write_family_frame[OF nn[unfolded e, OF m], of k] assms(5) h2 by simp
  next
    case x
    then show ?thesis using ix[unfolded e, OF x] h2 by simp
  qed
qed

lemma write_axis_frame:
  assumes "write_axis S B I n i h = Inr h'" "k \<notin> axis_keys (n + 1 - i)"
  shows "h' k = h k"
proof -
  obtain ks where ks: "par_axistype I = Some ks" using assms(1) by (elim write_axis_InrD)
  show ?thesis
  proof (rule write_axis_unchanged[OF assms(1) ks])
    show "k \<noteq> ''CNAME'' @ str_nat (n + 1 - i)" "k \<noteq> ''CUNIT'' @ str_nat (n + 1 - i)"
      using assms(2) axis_keys_names by blast+
    show "k \<notin> (if strip (ks ! i) = ''regular''
               then {''CRPIX'' @ str_nat (n + 1 - i), ''CRVAL'' @ str_nat (n + 1 - i),
                     ''CDELT'' @ str_nat (n + 1 - i)}
               else if strip (ks ! i) = ''irregular'' then set (pv_base (str_nat (n + 1 - i)) (S ! i))
               else if strip (ks ! i) = ''labeled'' then set (ps_base (str_nat (n + 1 - i)) (S ! i))
               else if strip (ks ! i) = ''named'' then set (n_base (str_nat (n + 1 - i)) (S ! i))
               else {})"
      using assms(2) axis_keys_names[of "n + 1 - i"] base_subset_axis_keys[of "n + 1 - i" "S ! i"]
      by (auto split: if_splits)
  qed
qed


section \<open>The writer's loop\<close>

lemma write_loop_frame:
  assumes "fold_err (write_axis S B I n) xs h = Inr h'" "\<And>i. i \<in> set xs \<Longrightarrow> k \<notin> axis_keys (n + 1 - i)"
  shows "h' k = h k"
proof (rule fold_err_invariant[OF assms(1), where P = "\<lambda>c. c k = h k"])
  show "h k = h k" by simp
next
  fix i a b assume "i \<in> set xs" "a k = h k" "write_axis S B I n i a = Inr b"
  then show "b k = h k" using write_axis_frame[of S B I n i a b k] assms(2) by simp
qed

lemma write_loop_at:
  assumes "fold_err (write_axis S B I n) xs h = Inr h'" "i \<in> set xs" "distinct xs"
    and "\<And>j. j \<in> set xs \<Longrightarrow> j \<le> n"
  shows "\<exists>sa sb. write_axis S B I n i sa = Inr sb \<and>
     (\<forall>k \<in> axis_keys (n + 1 - i). sa k = h k \<and> sb k = h' k)"
proof -
  let ?same = "\<lambda>a b::header. \<forall>k \<in> axis_keys (n + 1 - i). a k = b k"
  have "\<exists>sa sb. write_axis S B I n i sa = Inr sb \<and> ?same h sa \<and> ?same sb h'"
  proof (rule fold_err_at[OF assms(1-3), where same = ?same])
    show "?same a a" for a by simp
    show "?same a c" if "?same a b" "?same b c" for a b c using that by simp
    show "?same a b" if "j \<in> set xs" "j \<noteq> i" "write_axis S B I n j a = Inr b" for j a b
    proof
      fix k assume k: "k \<in> axis_keys (n + 1 - i)"
      have "i \<le> n" "j \<le> n" using assms(2,4) that(1) by blast+
      then have "n + 1 - i \<noteq> n + 1 - j" using that(2) by simp
      then have "k \<notin> axis_keys (n + 1 - j)" using k by (rule axis_keys_disjoint)
      then show "a k = b k" using write_axis_frame[OF that(3)] by simp
    qed
  qed
  then obtain sa sb where r: "write_axis S B I n i sa = Inr sb"
    and a: "?same h sa" and b: "?same sb h'" by blast
  have "\<forall>k \<in> axis_keys (n + 1 - i). sa k = h k \<and> sb k = h' k" using a b by simp
  then show ?thesis using r by blast
qed

section \<open>The header that \<^verbatim>\<open>write_ndArch\<close> writes\<close>

lemma naxis_cards_None:
  assumes "\<And>m. k \<noteq> ''NAXIS'' @ str_nat m"
  shows "naxis_cards S k = None"
proof -
  have "k \<notin> fst ` set (map (\<lambda>i. (''NAXIS'' @ str_nat (i + 1), HNum (of_nat (rev S ! i)))) [0..<length S])"
  proof
    assume "k \<in> fst ` set (map (\<lambda>i. (''NAXIS'' @ str_nat (i + 1), HNum (of_nat (rev S ! i)))) [0..<length S])"
    then obtain i where "k = ''NAXIS'' @ str_nat (i + 1)" by auto
    then show False using assms[of "i + 1"] by simp
  qed
  then show ?thesis unfolding naxis_cards_def by (rule map_of_eq_None_iff[THEN iffD2])
qed

lemma naxis_cards_axis_keys: "k \<in> axis_keys a \<Longrightarrow> naxis_cards S k = None"
  using fixed_keys_not_axis(6)[of _ a] by (intro naxis_cards_None) blast


lemma write_ndArch_InrD:
  assumes "write_ndArch fs d B I = Inr fs'"
  obtains c0 c1 h fn where "coeff0 I = Some c0" "coeff1 I = Some c1" "filename I = Some fn"
    "fold_err (write_axis (shape d) B I (length (shape d) - 1)) (rev [0..<length (shape d) - 1])
       ((case fluxunit I of Some u \<Rightarrow> (header (PrimaryHDU d))(''BUNIT'' \<mapsto> u)
         | None \<Rightarrow> header (PrimaryHDU d))
        (''CNAME1'' \<mapsto> HStr ''loglam'', ''CUNIT1'' \<mapsto> HStr ''log10(Angstroms)'',
         ''CRPIX1'' \<mapsto> HNum 1, ''CRVAL1'' \<mapsto> c0, ''CDELT1'' \<mapsto> c1)) = Inr h"
    "fs' = fs(fn \<mapsto> \<lparr>data = d, header = h\<rparr>)"
  using assms unfolding write_ndArch_def Let_def
  by (auto simp: ebind_def getkey_def split: sum.splits option.splits)

lemma written_loop_keeps:
  assumes "fold_err (write_axis S B I (length S - 1)) (rev [0..<length S - 1]) h = Inr h'"
    and "\<And>a. a \<noteq> 1 \<Longrightarrow> k \<notin> axis_keys a"
  shows "h' k = h k"
proof (rule write_loop_frame[OF assms(1)])
  fix i assume "i \<in> set (rev [0..<length S - 1])"
  then have "length S - 1 + 1 - i \<noteq> 1" by auto
  then show "k \<notin> axis_keys (length S - 1 + 1 - i)" by (rule assms(2))
qed

text \<open>
  C8, as amended. \<^verbatim>\<open>write_ndArch\<close> sets \<^verbatim>\<open>BUNIT\<close> exactly when the dictionary has the
  key \<^verbatim>\<open>fluxunit\<close>, to the value of that key whatever it is: the header written has
  \<^verbatim>\<open>BUNIT\<close> with the flux unit when the key is there, an empty string included, and
  has no \<^verbatim>\<open>BUNIT\<close> when the key is absent.
\<close>

theorem write_ndArch_BUNIT:
  assumes "write_ndArch fs d B I = Inr fs'" "filename I = Some fn"
  shows "\<exists>f. fs' fn = Some f \<and> header f ''BUNIT'' = fluxunit I"
proof -
  from assms(1) obtain c0 c1 h fn' where fn': "filename I = Some fn'"
    and loop: "fold_err (write_axis (shape d) B I (length (shape d) - 1))
       (rev [0..<length (shape d) - 1])
       ((case fluxunit I of Some u \<Rightarrow> (header (PrimaryHDU d))(''BUNIT'' \<mapsto> u)
         | None \<Rightarrow> header (PrimaryHDU d))
        (''CNAME1'' \<mapsto> HStr ''loglam'', ''CUNIT1'' \<mapsto> HStr ''log10(Angstroms)'',
         ''CRPIX1'' \<mapsto> HNum 1, ''CRVAL1'' \<mapsto> c0, ''CDELT1'' \<mapsto> c1)) = Inr h"
    and fs': "fs' = fs(fn' \<mapsto> \<lparr>data = d, header = h\<rparr>)"
    by (rule write_ndArch_InrD)
  have "naxis_cards (shape d) ''BUNIT'' = None" by (rule naxis_cards_None) simp
  then have "((case fluxunit I of Some u \<Rightarrow> (header (PrimaryHDU d))(''BUNIT'' \<mapsto> u)
         | None \<Rightarrow> header (PrimaryHDU d))
        (''CNAME1'' \<mapsto> HStr ''loglam'', ''CUNIT1'' \<mapsto> HStr ''log10(Angstroms)'',
         ''CRPIX1'' \<mapsto> HNum 1, ''CRVAL1'' \<mapsto> c0, ''CDELT1'' \<mapsto> c1)) ''BUNIT'' = fluxunit I"
    by (simp add: PrimaryHDU_def split: option.splits)
  moreover have "h ''BUNIT'' = ((case fluxunit I of Some u \<Rightarrow> (header (PrimaryHDU d))(''BUNIT'' \<mapsto> u)
         | None \<Rightarrow> header (PrimaryHDU d))
        (''CNAME1'' \<mapsto> HStr ''loglam'', ''CUNIT1'' \<mapsto> HStr ''log10(Angstroms)'',
         ''CRPIX1'' \<mapsto> HNum 1, ''CRVAL1'' \<mapsto> c0, ''CDELT1'' \<mapsto> c1)) ''BUNIT''"
    using loop by (rule written_loop_keeps) (rule fixed_keys_not_axis)
  ultimately show ?thesis using fs' fn' assms(2) by simp
qed


lemmas write_eval = write_ndArch_def write_axis_def write_family_def PrimaryHDU_def naxis_cards_def
  hsub_def py_get_def getkey_def

text \<open>
  C8 as stated fails for a flux unit that is there and empty: the key is in the dictionary
  (\<^verbatim>\<open>read_ndArch\<close> always returns it, \<^verbatim>\<open>''\<close> by default), so \<^verbatim>\<open>BUNIT\<close> is
  written, with the empty string.
\<close>

theorem write_ndArch_empty_fluxunit_counterexample:
  "written_card Map.empty grid_2x3 [[HNum 4, HNum 9]] (info_example ''irregular'') ''BUNIT''
     = Inr (Some (HStr []))"
  by (simp add: written_card_def write_eval axis_eval fits_open_def grid_2x3_def info_example_def)

theorem write_ndArch_BUNIT_witness:
  "\<exists>fs'. write_ndArch Map.empty grid_2x3 [[HNum 4, HNum 9]] (info_example ''irregular'') = Inr fs' \<and>
     filename (info_example ''irregular'') = Some ''ndArch-T-v0.fits'' \<and>
     (\<exists>f. fs' ''ndArch-T-v0.fits'' = Some f \<and>
        header f ''BUNIT'' = fluxunit (info_example ''irregular''))"
proof -
  obtain fs' where w: "write_ndArch Map.empty grid_2x3 [[HNum 4, HNum 9]] (info_example ''irregular'') = Inr fs'"
    by (simp add: write_eval axis_eval grid_2x3_def info_example_def)
  have f: "filename (info_example ''irregular'') = Some ''ndArch-T-v0.fits''"
    by (simp add: info_example_def)
  show ?thesis using w f write_ndArch_BUNIT[OF w f] by blast
qed

section \<open>What a pass of the reader looks at\<close>

lemma fold_err_cong:
  "(\<And>i s. i \<in> set xs \<Longrightarrow> f i s = g i s) \<Longrightarrow> fold_err f xs s = fold_err g xs s"
  by (induction xs arbitrary: s) (auto split: sum.splits)

lemma read_axis_cong:
  assumes "\<And>k. k \<in> axis_keys (n + 1 - i) \<Longrightarrow> h k = h2 k"
  shows "read_axis S h n i st = read_axis S h2 n i st"
proof -
  let ?a = "n + 1 - i"
  have k: "h (''CNAME'' @ str_nat ?a) = h2 (''CNAME'' @ str_nat ?a)"
    "h (''CUNIT'' @ str_nat ?a) = h2 (''CUNIT'' @ str_nat ?a)"
    "h (''CRPIX'' @ str_nat ?a) = h2 (''CRPIX'' @ str_nat ?a)"
    "h (''CRVAL'' @ str_nat ?a) = h2 (''CRVAL'' @ str_nat ?a)"
    "h (''CDELT'' @ str_nat ?a) = h2 (''CDELT'' @ str_nat ?a)"
    using assms axis_keys_names[of ?a] by blast+
  have b: "\<And>x. x \<in> set (pv_base (str_nat ?a) (S ! i)) \<Longrightarrow> h x = h2 x"
    "\<And>x. x \<in> set (ps_base (str_nat ?a) (S ! i)) \<Longrightarrow> h x = h2 x"
    "\<And>x. x \<in> set (n_base (str_nat ?a) (S ! i)) \<Longrightarrow> h x = h2 x"
    using assms base_subset_axis_keys[of ?a "S ! i"] by blast+
  have t: "family_test h (pv_base (str_nat ?a) (S ! i)) = family_test h2 (pv_base (str_nat ?a) (S ! i))"
    "family_test h (ps_base (str_nat ?a) (S ! i)) = family_test h2 (ps_base (str_nat ?a) (S ! i))"
    "family_test h (n_base (str_nat ?a) (S ! i)) = family_test h2 (n_base (str_nat ?a) (S ! i))"
    unfolding family_test_iff using b by simp_all
  have v: "family_values h (pv_base (str_nat ?a) (S ! i)) = family_values h2 (pv_base (str_nat ?a) (S ! i))"
    "family_values h (ps_base (str_nat ?a) (S ! i)) = family_values h2 (ps_base (str_nat ?a) (S ! i))"
    "family_values h (n_base (str_nat ?a) (S ! i)) = family_values h2 (n_base (str_nat ?a) (S ! i))"
    unfolding family_values_def using b by simp_all
  have r: "regular_baseline h (str_nat ?a) (S ! i) = regular_baseline h2 (str_nat ?a) (S ! i)"
    unfolding regular_baseline_def using k by simp
  have ki: "key_in (''CRPIX'' @ str_nat ?a) h = key_in (''CRPIX'' @ str_nat ?a) h2"
    "key_in (''CRVAL'' @ str_nat ?a) h = key_in (''CRVAL'' @ str_nat ?a) h2"
    "key_in (''CDELT'' @ str_nat ?a) h = key_in (''CDELT'' @ str_nat ?a) h2"
    unfolding key_in_def using k by simp_all
  show ?thesis unfolding read_axis_def Let_def k(1,2) ki t v r ..
qed

lemma read_axes_cong:
  assumes "\<And>a k. a \<noteq> 1 \<Longrightarrow> k \<in> axis_keys a \<Longrightarrow> h k = h2 k"
  shows "read_axes S h = read_axes S h2"
  unfolding read_axes_def
proof (rule fold_err_cong)
  fix i s assume "i \<in> set [0..<length S - 1]"
  then have "length S - 1 + 1 - i \<noteq> 1" by auto
  then show "read_axis S h (length S - 1) i s = read_axis S h2 (length S - 1) i s"
    using assms by (intro read_axis_cong) blast
qed

lemma read_ndArch_wavelength_name:
  "read_ndArch (fs(fname \<mapsto> f\<lparr>header := (header f)(''CNAME1'' := x, ''CUNIT1'' := y)\<rparr>)) fname
     = read_ndArch (fs(fname \<mapsto> f)) fname"
proof -
  have "read_axes (shape (data f)) ((header f)(''CNAME1'' := x, ''CUNIT1'' := y))
      = read_axes (shape (data f)) (header f)"
  proof (rule read_axes_cong)
    fix a :: nat and k assume "a \<noteq> 1" "k \<in> axis_keys a"
    then have "k \<noteq> ''CNAME1''" "k \<noteq> ''CUNIT1''" using wavelength_keys_not_axis(1,2)[of a] by blast+
    then show "((header f)(''CNAME1'' := x, ''CUNIT1'' := y)) k = header f k" by simp
  qed
  then show ?thesis unfolding read_ndArch_def by (simp add: fits_open_def)
qed


lemma write_ndArch_wavelength_name:
  assumes "write_ndArch fs d B I = Inr fs'" "filename I = Some fn"
  shows "\<exists>f. fs' fn = Some f \<and> header f ''CNAME1'' = Some (HStr ''loglam'') \<and>
     header f ''CUNIT1'' = Some (HStr ''log10(Angstroms)'')"
proof -
  from assms(1) obtain c0 c1 h fn' where fn': "filename I = Some fn'"
    and loop: "fold_err (write_axis (shape d) B I (length (shape d) - 1))
       (rev [0..<length (shape d) - 1])
       ((case fluxunit I of Some u \<Rightarrow> (header (PrimaryHDU d))(''BUNIT'' \<mapsto> u)
         | None \<Rightarrow> header (PrimaryHDU d))
        (''CNAME1'' \<mapsto> HStr ''loglam'', ''CUNIT1'' \<mapsto> HStr ''log10(Angstroms)'',
         ''CRPIX1'' \<mapsto> HNum 1, ''CRVAL1'' \<mapsto> c0, ''CDELT1'' \<mapsto> c1)) = Inr h"
    and fs': "fs' = fs(fn' \<mapsto> \<lparr>data = d, header = h\<rparr>)"
    by (rule write_ndArch_InrD)
  have "h ''CNAME1'' = Some (HStr ''loglam'')"
    using written_loop_keeps[OF loop, of "''CNAME1''"] wavelength_keys_not_axis(1) by simp
  moreover have "h ''CUNIT1'' = Some (HStr ''log10(Angstroms)'')"
    using written_loop_keeps[OF loop, of "''CUNIT1''"] wavelength_keys_not_axis(2) by simp
  ultimately show ?thesis using fs' fn' assms(2) by simp
qed

text \<open>
  C10. The file that \<^verbatim>\<open>write_ndArch\<close> writes has \<^verbatim>\<open>CNAME1 = 'loglam'\<close> and
  \<^verbatim>\<open>CUNIT1 = 'log10(Angstroms)'\<close>. What \<^verbatim>\<open>read_ndArch\<close> returns does not depend on
  these two cards: with any other value for them, or without them, the result is the
  same. The names and units returned have one entry for each parameter, taken from
  \<^verbatim>\<open>CNAME{ax}\<close> and \<^verbatim>\<open>CUNIT{ax}\<close> of an axis number \<open>ax\<close> that is at least 2.
\<close>

theorem wavelength_name_not_read:
  "(write_ndArch fs d B I = Inr fs' \<and> filename I = Some fn \<longrightarrow>
      (\<exists>f. fs' fn = Some f \<and> header f ''CNAME1'' = Some (HStr ''loglam'') \<and>
         header f ''CUNIT1'' = Some (HStr ''log10(Angstroms)''))) \<and>
   read_ndArch (fs2(fname \<mapsto> g\<lparr>header := (header g)(''CNAME1'' := x, ''CUNIT1'' := y)\<rparr>)) fname
     = read_ndArch (fs2(fname \<mapsto> g)) fname \<and>
   (read_ndArch fs2 fname = Inr (d', bl, info) \<and> fs2 fname = Some g \<longrightarrow>
      (\<exists>ns us. par_names info = Some ns \<and> par_units info = Some us \<and>
         length ns = length (shape d') - 1 \<and> length us = length (shape d') - 1 \<and>
         (\<forall>i < length (shape d') - 1. 2 \<le> length (shape d') - i \<and>
            ns ! i = (case header g (''CNAME'' @ str_nat (length (shape d') - i)) of
                        Some v \<Rightarrow> v | None \<Rightarrow> HStr []) \<and>
            us ! i = (case header g (''CUNIT'' @ str_nat (length (shape d') - i)) of
                        Some v \<Rightarrow> v | None \<Rightarrow> HStr []))))"
proof -
  have c: "\<exists>ns us. par_names info = Some ns \<and> par_units info = Some us \<and>
         length ns = length (shape d') - 1 \<and> length us = length (shape d') - 1 \<and>
         (\<forall>i < length (shape d') - 1. 2 \<le> length (shape d') - i \<and>
            ns ! i = (case header g (''CNAME'' @ str_nat (length (shape d') - i)) of
                        Some v \<Rightarrow> v | None \<Rightarrow> HStr []) \<and>
            us ! i = (case header g (''CUNIT'' @ str_nat (length (shape d') - i)) of
                        Some v \<Rightarrow> v | None \<Rightarrow> HStr []))"
    if r: "read_ndArch fs2 fname = Inr (d', bl, info)" and g: "fs2 fname = Some g"
  proof -
    from r obtain st where st: "read_axes (shape (data g)) (header g) = Inr st"
      and d: "d' = data g" and n: "par_names info = Some (st_names st)"
      and u: "par_units info = Some (st_units st)"
      using g by (auto elim!: read_ndArch_InrD)
    have "length (st_names st) = length (shape d') - 1" "length (st_units st) = length (shape d') - 1"
      using read_axes_lengths[OF st] d by simp_all
    moreover have "2 \<le> length (shape d') - i \<and>
        st_names st ! i = (case header g (''CNAME'' @ str_nat (length (shape d') - i)) of
                        Some v \<Rightarrow> v | None \<Rightarrow> HStr []) \<and>
        st_units st ! i = (case header g (''CUNIT'' @ str_nat (length (shape d') - i)) of
                        Some v \<Rightarrow> v | None \<Rightarrow> HStr [])" if "i < length (shape d') - 1" for i
      using read_axes_names[OF st, of i] that d by auto
    ultimately show ?thesis using n u by blast
  qed
  show ?thesis
    using write_ndArch_wavelength_name[of fs d B I fs' fn] read_ndArch_wavelength_name[of fs2 fname g x y] c
    by blast
qed


theorem wavelength_name_not_read_witness:
  "(\<exists>fs'. write_ndArch Map.empty grid_2x3 [[HNum 4, HNum 9]] (info_example ''irregular'') = Inr fs' \<and>
      filename (info_example ''irregular'') = Some ''ndArch-T-v0.fits'' \<and>
      (\<exists>f. fs' ''ndArch-T-v0.fits'' = Some f \<and> header f ''CNAME1'' = Some (HStr ''loglam'') \<and>
         header f ''CUNIT1'' = Some (HStr ''log10(Angstroms)''))) \<and>
   read_ndArch [''ndArch-T-v0.fits'' \<mapsto> archive_regular] ''ndArch-T-v0.fits''
     = Inr (data archive_regular, [[HNum 5, HNum 7, HNum 9]],
         \<lparr>filename = Some ''ndArch-T-v0.fits'', class_name = Some ''T'', version = Some ''v0'',
          coeff0 = Some (HNum 3), coeff1 = Some (HNum 1), nwave = Some (HNum 2),
          fluxunit = Some (HStr []), par_names = Some [HStr []], par_units = Some [HStr []],
          par_axistype = Some [''regular'']\<rparr>) \<and>
   [''ndArch-T-v0.fits'' \<mapsto> archive_regular] ''ndArch-T-v0.fits'' = Some archive_regular \<and>
   (\<exists>ns us. Some [HStr []] = Some ns \<and> Some [HStr []] = Some us \<and>
      length ns = length (shape (data archive_regular)) - 1 \<and>
      length us = length (shape (data archive_regular)) - 1)"
proof -
  obtain fs' where w: "write_ndArch Map.empty grid_2x3 [[HNum 4, HNum 9]] (info_example ''irregular'') = Inr fs'"
    by (simp add: write_eval axis_eval grid_2x3_def info_example_def)
  have f: "filename (info_example ''irregular'') = Some ''ndArch-T-v0.fits''"
    by (simp add: info_example_def)
  have g: "[''ndArch-T-v0.fits'' \<mapsto> archive_regular] ''ndArch-T-v0.fits'' = Some archive_regular"
    by simp
  note t = wavelength_name_not_read[of Map.empty grid_2x3 "[[HNum 4, HNum 9]]"
      "info_example ''irregular''" fs' "''ndArch-T-v0.fits''"
      "[''ndArch-T-v0.fits'' \<mapsto> archive_regular]" "''ndArch-T-v0.fits''" archive_regular None None
      "data archive_regular" "[[HNum 5, HNum 7, HNum 9]]"
      "\<lparr>filename = Some ''ndArch-T-v0.fits'', class_name = Some ''T'', version = Some ''v0'',
          coeff0 = Some (HNum 3), coeff1 = Some (HNum 1), nwave = Some (HNum 2),
          fluxunit = Some (HStr []), par_names = Some [HStr []], par_units = Some [HStr []],
          par_axistype = Some [''regular'']\<rparr>"]
  have 1: "\<exists>f. fs' ''ndArch-T-v0.fits'' = Some f \<and> header f ''CNAME1'' = Some (HStr ''loglam'') \<and>
         header f ''CUNIT1'' = Some (HStr ''log10(Angstroms)'')"
    using t w f by blast
  have 3: "\<exists>ns us. Some [HStr []] = Some ns \<and> Some [HStr []] = Some us \<and>
      length ns = length (shape (data archive_regular)) - 1 \<and>
      length us = length (shape (data archive_regular)) - 1"
    using t read_archive_regular g by auto
  show ?thesis using w f 1 3 read_archive_regular g by blast
qed

section \<open>Baselines that are too short\<close>

lemma write_axis_short:
  assumes "par_axistype I = Some ks"
    and "strip (ks ! i) = ''irregular'' \<or> strip (ks ! i) = ''labeled'' \<or> strip (ks ! i) = ''named''"
    and "0 < S ! i" "\<not> (i < length B \<and> S ! i \<le> length (B ! i))"
  shows "\<exists>e. write_axis S B I n i h = Inl e"
proof (cases "write_axis S B I n i h")
  case (Inl e)
  then show ?thesis by blast
next
  case (Inr h')
  then obtain ks' h2 where ks': "par_axistype I = Some ks'"
    and pv: "strip (ks' ! i) \<noteq> ''regular'' \<Longrightarrow> strip (ks' ! i) = ''irregular'' \<Longrightarrow>
       write_family (pv_base (str_nat (n + 1 - i)) (S ! i)) B i (S ! i) h2 = Inr h'"
    and ps: "strip (ks' ! i) \<noteq> ''regular'' \<Longrightarrow> strip (ks' ! i) \<noteq> ''irregular'' \<Longrightarrow>
       strip (ks' ! i) = ''labeled'' \<Longrightarrow>
       write_family (ps_base (str_nat (n + 1 - i)) (S ! i)) B i (S ! i) h2 = Inr h'"
    and nn: "strip (ks' ! i) \<noteq> ''regular'' \<Longrightarrow> strip (ks' ! i) \<noteq> ''irregular'' \<Longrightarrow>
       strip (ks' ! i) \<noteq> ''labeled'' \<Longrightarrow> strip (ks' ! i) = ''named'' \<Longrightarrow>
       write_family (n_base (str_nat (n + 1 - i)) (S ! i)) B i (S ! i) h2 = Inr h'"
    by (elim write_axis_InrD) blast
  have e: "ks' = ks" using ks' assms(1) by simp
  have "\<exists>base. write_family base B i (S ! i) h2 = Inr h'"
  proof -
    consider (v) "strip (ks ! i) = ''irregular''" | (s) "strip (ks ! i) = ''labeled''"
      | (m) "strip (ks ! i) = ''named''" using assms(2) by blast
    then show ?thesis
    proof cases
      case v
      then have "strip (ks ! i) \<noteq> ''regular''" by simp
      then show ?thesis using pv v unfolding e by blast
    next
      case s
      then have "strip (ks ! i) \<noteq> ''regular''" "strip (ks ! i) \<noteq> ''irregular''" by simp_all
      then show ?thesis using ps s unfolding e by blast
    next
      case m
      then have "strip (ks ! i) \<noteq> ''regular''" "strip (ks ! i) \<noteq> ''irregular''"
        "strip (ks ! i) \<noteq> ''labeled''" by simp_all
      then show ?thesis using nn m unfolding e by blast
    qed
  qed
  then obtain base where "write_family base B i (S ! i) h2 = Inr h'" ..
  then have "i < length B \<and> S ! i \<le> length (B ! i)" using assms(3) by (rule write_family_needs)
  then show ?thesis using assms(4) by simp
qed

lemma hsub_error:
  assumes "hsub a b = Inl e"
  shows "e = TypeError \<and> (\<exists>s. a = HStr s \<or> b = HStr s)"
  using assms unfolding hsub_def num_of_def by (cases a; cases b; auto)

lemma names_step_error:
  "(case ns of None \<Rightarrow> Inr h | Some xs \<Rightarrow> ebind (py_get xs (int i)) (\<lambda>v. Inr (h(k \<mapsto> v)))) = Inl e
     \<Longrightarrow> e = IndexError"
  by (cases ns) (auto simp: py_get_nat split: if_splits)

lemma regular_step_error:
  assumes "ebind (py_get B (int i)) (\<lambda>b. ebind (py_get b 0) (\<lambda>b0. ebind (py_get b 1) (\<lambda>b1.
             ebind (hsub b1 b0) (\<lambda>d. Inr (g b0 d))))) = Inl e"
    and "i < length B \<longrightarrow> (\<forall>s. HStr s \<notin> set (B ! i))"
  shows "e = IndexError"
proof (cases "i < length B \<and> 1 < length (B ! i)")
  case False
  then show ?thesis using assms(1) by (auto simp: py_get_nat py_get_0 py_get_1 split: if_splits)
next
  case True
  then have "hsub (B ! i ! 1) (B ! i ! 0) = Inl e"
    using assms(1) by (auto simp: py_get_nat py_get_0 py_get_1 split: if_splits sum.splits simp: ebind_def)
  then obtain s where "B ! i ! 1 = HStr s \<or> B ! i ! 0 = HStr s" using hsub_error by blast
  moreover have "0 < length (B ! i)" "1 < length (B ! i)" using True by linarith+
  then have "B ! i ! 1 \<in> set (B ! i)" "B ! i ! 0 \<in> set (B ! i)" by simp_all
  ultimately have False using assms(2) True by metis
  then show ?thesis ..
qed

lemma write_axis_error:
  assumes "write_axis S B I n i h = Inl e" "par_axistype I = Some ks"
    and "strip (ks ! i) = ''regular'' \<longrightarrow> i < length B \<longrightarrow> (\<forall>s. HStr s \<notin> set (B ! i))"
  shows "e = IndexError"
proof -
  let ?ax = "str_nat (n + 1 - i)"
  let ?n = "case par_names I of None \<Rightarrow> Inr h
             | Some ns \<Rightarrow> ebind (py_get ns (int i)) (\<lambda>v. Inr (h(''CNAME'' @ ?ax \<mapsto> v)))"
  show ?thesis
  proof (cases ?n)
    case (Inl e1)
    then have "e1 = IndexError" by (rule names_step_error)
    then show ?thesis using assms(1) Inl unfolding write_axis_def Let_def by simp
  next
    case h1: (Inr h1)
    let ?u = "case par_units I of None \<Rightarrow> Inr h1
             | Some us \<Rightarrow> ebind (py_get us (int i)) (\<lambda>v. Inr (h1(''CUNIT'' @ ?ax \<mapsto> v)))"
    show ?thesis
    proof (cases ?u)
      case (Inl e1)
      then have "e1 = IndexError" by (rule names_step_error)
      then show ?thesis using assms(1) h1 Inl unfolding write_axis_def Let_def by simp
    next
      case h2: (Inr h2)
      show ?thesis
      proof (cases "i < length ks")
        case False
        then show ?thesis using assms(1,2) h1 h2 unfolding write_axis_def Let_def
          by (simp add: getkey_def py_get_nat)
      next
        case True
        have rest: "(if strip (ks ! i) = ''regular'' then
            ebind (py_get B (int i)) (\<lambda>b. ebind (py_get b 0) (\<lambda>b0. ebind (py_get b 1) (\<lambda>b1.
              ebind (hsub b1 b0) (\<lambda>d.
                Inr (h2(''CRPIX'' @ ?ax \<mapsto> HNum 1, ''CRVAL'' @ ?ax \<mapsto> b0, ''CDELT'' @ ?ax \<mapsto> d))))))
          else if strip (ks ! i) = ''irregular'' then
            write_family (pv_base ?ax (S ! i)) B i (S ! i) h2
          else if strip (ks ! i) = ''labeled'' then
            write_family (ps_base ?ax (S ! i)) B i (S ! i) h2
          else if strip (ks ! i) = ''named'' then
            write_family (n_base ?ax (S ! i)) B i (S ! i) h2
          else Inr h2) = Inl e"
          using assms(1,2) h1 h2 True unfolding write_axis_def Let_def
          by (simp add: getkey_def py_get_nat)
        show ?thesis
        proof (cases "strip (ks ! i) = ''regular''")
          case True
          then show ?thesis using rest assms(3) regular_step_error by simp
        next
          case False
          then show ?thesis using rest write_family_error
            by (auto split: if_splits)
        qed
      qed
    qed
  qed
qed

lemma fold_err_mono:
  "fold_err f xs s = Inr r \<Longrightarrow> (\<forall>x \<in> set xs. \<forall>a b. f x a = Inr b \<longrightarrow> g x a = Inr b)
     \<Longrightarrow> fold_err g xs s = Inr r"
proof (induction xs arbitrary: s)
  case Nil
  then show ?case by simp
next
  case (Cons x xs)
  then obtain s1 where s1: "f x s = Inr s1" by (cases "f x s") auto
  then have "g x s = Inr s1" using Cons.prems(2) by simp
  moreover have "fold_err g xs s1 = Inr r" using Cons.IH[of s1] Cons.prems s1 by simp
  ultimately show ?case by simp
qed

lemma write_family_prefix:
  assumes "write_family base B i L h = Inr c"
    and "i < length B \<longrightarrow> i < length B' \<and> (\<exists>t. B' ! i = B ! i @ t)"
  shows "write_family base B' i L h = Inr c"
  unfolding write_family_def
proof (rule fold_err_mono[OF assms(1)[unfolded write_family_def]], intro ballI allI impI)
  fix j a b
  assume "ebind (py_get B (int i)) (\<lambda>b. ebind (py_get b (int j)) (\<lambda>v. Inr (a(base ! j \<mapsto> v)))) = Inr b"
  then have s: "i < length B" "j < length (B ! i)" "b = a(base ! j \<mapsto> B ! i ! j)"
    unfolding family_step by simp_all
  then obtain t where t: "i < length B'" "B' ! i = B ! i @ t" using assms(2) by blast
  have "j < length (B' ! i)" "B' ! i ! j = B ! i ! j" using s(2) t(2) by (simp_all add: nth_append)
  then show "ebind (py_get B' (int i)) (\<lambda>b. ebind (py_get b (int j)) (\<lambda>v. Inr (a(base ! j \<mapsto> v)))) = Inr b"
    unfolding family_step using t(1) s(3) by simp
qed

lemma regular_step_prefix:
  assumes "ebind (py_get B (int i)) (\<lambda>b. ebind (py_get b 0) (\<lambda>b0. ebind (py_get b 1) (\<lambda>b1.
             ebind (hsub b1 b0) (\<lambda>d. Inr (g b0 d))))) = Inr r"
    and "i < length B \<longrightarrow> i < length B' \<and> (\<exists>t. B' ! i = B ! i @ t)"
  shows "ebind (py_get B' (int i)) (\<lambda>b. ebind (py_get b 0) (\<lambda>b0. ebind (py_get b 1) (\<lambda>b1.
             ebind (hsub b1 b0) (\<lambda>d. Inr (g b0 d))))) = Inr r"
proof -
  have l: "i < length B \<and> 1 < length (B ! i)"
    using assms(1) by (auto simp: py_get_nat py_get_0 py_get_1 split: if_splits)
  then obtain t where t: "i < length B'" "B' ! i = B ! i @ t" using assms(2) by blast
  have n: "0 < length (B ! i)" "1 < length (B ! i)" using l by linarith+
  then have n': "0 < length (B' ! i)" "1 < length (B' ! i)"
    and e: "B' ! i ! 0 = B ! i ! 0" "B' ! i ! 1 = B ! i ! 1"
    using t(2) by (simp_all add: nth_append)
  have a: "py_get B (int i) = Inr (B ! i)" "py_get (B ! i) 0 = Inr (B ! i ! 0)"
    "py_get (B ! i) 1 = Inr (B ! i ! 1)"
    using l n unfolding py_get_nat py_get_0 py_get_1 by simp_all
  have a': "py_get B' (int i) = Inr (B ! i @ t)" "py_get (B ! i @ t) 0 = Inr (B ! i ! 0)"
    "py_get (B ! i @ t) 1 = Inr (B ! i ! 1)"
    using t n' e unfolding py_get_nat py_get_0 py_get_1 by simp_all
  show ?thesis using assms(1) unfolding a a' ebind_Inr .
qed

lemma write_axis_prefix:
  assumes "write_axis S B I n i h = Inr h'" "par_axistype I = Some ks"
    and "strip (ks ! i) \<in> {''regular'', ''irregular'', ''labeled'', ''named''} \<longrightarrow> i < length B
           \<longrightarrow> i < length B' \<and> (\<exists>t. B' ! i = B ! i @ t)"
  shows "write_axis S B' I n i h = Inr h'"
proof -
  let ?ax = "str_nat (n + 1 - i)"
  obtain h1 where h1: "(case par_names I of None \<Rightarrow> Inr h
             | Some ns \<Rightarrow> ebind (py_get ns (int i)) (\<lambda>v. Inr (h(''CNAME'' @ ?ax \<mapsto> v)))) = Inr h1"
    using assms(1) unfolding write_axis_def Let_def by (auto simp: ebind_def split: sum.splits)
  obtain h2 where h2: "(case par_units I of None \<Rightarrow> Inr h1
             | Some us \<Rightarrow> ebind (py_get us (int i)) (\<lambda>v. Inr (h1(''CUNIT'' @ ?ax \<mapsto> v)))) = Inr h2"
    using assms(1) h1 unfolding write_axis_def Let_def by (auto simp: ebind_def split: sum.splits)
  have k: "i < length ks"
    using assms(1,2) h1 h2 unfolding write_axis_def Let_def
    by (auto simp: getkey_def py_get_nat split: if_splits)
  have rest: "(if strip (ks ! i) = ''regular'' then
            ebind (py_get B (int i)) (\<lambda>b. ebind (py_get b 0) (\<lambda>b0. ebind (py_get b 1) (\<lambda>b1.
              ebind (hsub b1 b0) (\<lambda>d.
                Inr (h2(''CRPIX'' @ ?ax \<mapsto> HNum 1, ''CRVAL'' @ ?ax \<mapsto> b0, ''CDELT'' @ ?ax \<mapsto> d))))))
          else if strip (ks ! i) = ''irregular'' then
            write_family (pv_base ?ax (S ! i)) B i (S ! i) h2
          else if strip (ks ! i) = ''labeled'' then
            write_family (ps_base ?ax (S ! i)) B i (S ! i) h2
          else if strip (ks ! i) = ''named'' then
            write_family (n_base ?ax (S ! i)) B i (S ! i) h2
          else Inr h2) = Inr h'"
    using assms(1,2) h1 h2 k unfolding write_axis_def Let_def
    by (simp add: getkey_def py_get_nat)
  have rest': "(if strip (ks ! i) = ''regular'' then
            ebind (py_get B' (int i)) (\<lambda>b. ebind (py_get b 0) (\<lambda>b0. ebind (py_get b 1) (\<lambda>b1.
              ebind (hsub b1 b0) (\<lambda>d.
                Inr (h2(''CRPIX'' @ ?ax \<mapsto> HNum 1, ''CRVAL'' @ ?ax \<mapsto> b0, ''CDELT'' @ ?ax \<mapsto> d))))))
          else if strip (ks ! i) = ''irregular'' then
            write_family (pv_base ?ax (S ! i)) B' i (S ! i) h2
          else if strip (ks ! i) = ''labeled'' then
            write_family (ps_base ?ax (S ! i)) B' i (S ! i) h2
          else if strip (ks ! i) = ''named'' then
            write_family (n_base ?ax (S ! i)) B' i (S ! i) h2
          else Inr h2) = Inr h'"
  proof (cases "strip (ks ! i) \<in> {''regular'', ''irregular'', ''labeled'', ''named''}")
    case False
    then show ?thesis using rest by simp
  next
    case True
    then have p: "i < length B \<longrightarrow> i < length B' \<and> (\<exists>t. B' ! i = B ! i @ t)" using assms(3) by blast
    show ?thesis
    proof (cases "strip (ks ! i) = ''regular''")
      case True
      then show ?thesis using rest regular_step_prefix[OF _ p] by simp
    next
      case False
      then show ?thesis using rest write_family_prefix[OF _ p] by (auto split: if_splits)
    qed
  qed
  show ?thesis using rest' assms(2) h1 h2 k unfolding write_axis_def Let_def
    by (simp add: getkey_def py_get_nat)
qed


text \<open>
  C7, as amended. \<^verbatim>\<open>write_ndArch\<close> has no step that compares lengths and raises no
  AxisShapeMismatchError. When an irregular, labeled or named axis that is not empty has no
  baseline, or a baseline that is shorter than the axis, the call raises and returns no
  files: nothing is written. The exception is the \<^verbatim>\<open>IndexError\<close> of an indexing
  (\<^verbatim>\<open>baselines[ipar][j]\<close>, or that of a list of the dictionary) when \<^verbatim>\<open>coeff0\<close> and
  \<^verbatim>\<open>coeff1\<close> are in the dictionary and no regular axis has a string in its baseline (a
  missing \<^verbatim>\<open>coeff0\<close> raises \<^verbatim>\<open>KeyError\<close> before the loop, a string raises \<^verbatim>\<open>TypeError\<close>
  in the subtraction of line 185).

  Nothing else of the baselines is looked at: when a call returns, the call returns the
  same files for any list of baselines that has more baselines, more elements after those
  of a regular, irregular, labeled or named axis, and anything at all for an axis of
  another kind.
\<close>

theorem write_ndArch_short_baseline:
  "(i < length (shape d) - 1 \<and> par_axistype I = Some ks \<and>
    (strip (ks ! i) = ''irregular'' \<or> strip (ks ! i) = ''labeled'' \<or> strip (ks ! i) = ''named'') \<and>
    0 < shape d ! i \<and> \<not> (i < length B \<and> shape d ! i \<le> length (B ! i))
    \<longrightarrow> (\<exists>e. write_ndArch fs d B I = Inl e) \<and>
        (coeff0 I \<noteq> None \<and> coeff1 I \<noteq> None \<and>
         (\<forall>j < length (shape d) - 1. strip (ks ! j) = ''regular'' \<longrightarrow> j < length B
             \<longrightarrow> (\<forall>s. HStr s \<notin> set (B ! j)))
         \<longrightarrow> write_ndArch fs d B I = Inl IndexError)) \<and>
   (write_ndArch fs d B I = Inr fs' \<and> par_axistype I = Some ks \<and>
    (\<forall>j < length (shape d) - 1.
        strip (ks ! j) \<in> {''regular'', ''irregular'', ''labeled'', ''named''} \<longrightarrow> j < length B
          \<longrightarrow> j < length B' \<and> (\<exists>t. B' ! j = B ! j @ t))
    \<longrightarrow> write_ndArch fs d B' I = Inr fs')"
proof (intro conjI impI)
  let ?n = "length (shape d) - 1"
  let ?F = "\<lambda>B h. fold_err (write_axis (shape d) B I ?n) (rev [0..<?n]) h"
  let ?h = "\<lambda>c0 c1. (case fluxunit I of Some u \<Rightarrow> (header (PrimaryHDU d))(''BUNIT'' \<mapsto> u)
           | None \<Rightarrow> header (PrimaryHDU d))
          (''CNAME1'' \<mapsto> HStr ''loglam'', ''CUNIT1'' \<mapsto> HStr ''log10(Angstroms)'',
           ''CRPIX1'' \<mapsto> HNum 1, ''CRVAL1'' \<mapsto> c0, ''CDELT1'' \<mapsto> c1)"
  {
    assume a: "i < ?n \<and> par_axistype I = Some ks \<and>
      (strip (ks ! i) = ''irregular'' \<or> strip (ks ! i) = ''labeled'' \<or> strip (ks ! i) = ''named'') \<and>
      0 < shape d ! i \<and> \<not> (i < length B \<and> shape d ! i \<le> length (B ! i))"
    have fails: "\<exists>e. ?F B h = Inl e" for h
    proof (rule fold_err_fails[where i = i])
      show "i \<in> set (rev [0..<?n])" using a by simp
      show "\<exists>e. write_axis (shape d) B I ?n i s = Inl e" for s
        using a by (intro write_axis_short[of I ks]) blast+
    qed
    show "\<exists>e. write_ndArch fs d B I = Inl e"
    proof (cases "coeff0 I")
      case None
      then show ?thesis unfolding write_ndArch_def Let_def by (simp add: getkey_def)
    next
      case c0: (Some c0)
      show ?thesis
      proof (cases "coeff1 I")
        case None
        then show ?thesis using c0 unfolding write_ndArch_def Let_def by (simp add: getkey_def)
      next
        case (Some c1)
        obtain e where "?F B (?h c0 c1) = Inl e" using fails by blast
        then show ?thesis using c0 Some unfolding write_ndArch_def Let_def
          by (simp add: getkey_def)
      qed
    qed
    assume b: "coeff0 I \<noteq> None \<and> coeff1 I \<noteq> None \<and>
         (\<forall>j < ?n. strip (ks ! j) = ''regular'' \<longrightarrow> j < length B
             \<longrightarrow> (\<forall>s. HStr s \<notin> set (B ! j)))"
    then obtain c0 c1 where c: "coeff0 I = Some c0" "coeff1 I = Some c1" by blast
    obtain e where e: "?F B (?h c0 c1) = Inl e" using fails by blast
    then obtain j s where j: "j \<in> set (rev [0..<?n])" "write_axis (shape d) B I ?n j s = Inl e"
      using fold_err_error by fast
    have "j < ?n" using j(1) by simp
    then have "strip (ks ! j) = ''regular'' \<longrightarrow> j < length B \<longrightarrow> (\<forall>s. HStr s \<notin> set (B ! j))"
      using b by blast
    with j(2) a have "e = IndexError" by (intro write_axis_error[of "shape d" B I ?n j s e ks]) blast+
    then show "write_ndArch fs d B I = Inl IndexError"
      using e c unfolding write_ndArch_def Let_def by (simp add: getkey_def)
  }
  {
    assume a: "write_ndArch fs d B I = Inr fs' \<and> par_axistype I = Some ks \<and>
      (\<forall>j < ?n. strip (ks ! j) \<in> {''regular'', ''irregular'', ''labeled'', ''named''} \<longrightarrow> j < length B
          \<longrightarrow> j < length B' \<and> (\<exists>t. B' ! j = B ! j @ t))"
    then obtain c0 c1 h fn where c: "coeff0 I = Some c0" "coeff1 I = Some c1" "filename I = Some fn"
      and h: "?F B (?h c0 c1) = Inr h" and fs': "fs' = fs(fn \<mapsto> \<lparr>data = d, header = h\<rparr>)"
      by (elim conjE write_ndArch_InrD)
    have "?F B' (?h c0 c1) = Inr h"
    proof (rule fold_err_mono[OF h], intro ballI allI impI)
      fix j s s'
      assume j: "j \<in> set (rev [0..<?n])" and w: "write_axis (shape d) B I ?n j s = Inr s'"
      have "j < ?n" using j by simp
      then have "strip (ks ! j) \<in> {''regular'', ''irregular'', ''labeled'', ''named''} \<longrightarrow> j < length B
          \<longrightarrow> j < length B' \<and> (\<exists>t. B' ! j = B ! j @ t)" using a by blast
      with w a show "write_axis (shape d) B' I ?n j s = Inr s'"
        by (intro write_axis_prefix[of "shape d" B I ?n j s s' ks B']) blast+
    qed
    then show "write_ndArch fs d B' I = Inr fs'"
      using c fs' unfolding write_ndArch_def Let_def by (simp add: getkey_def)
  }
qed


text \<open>
  C7 as stated fails: a baseline of three elements for an axis of length 2 is accepted (the
  third element is never read), so is a baseline of one element for an index axis of
  length 2 (no element is read), and so are two baselines for an array with one parameter
  axis (the second is never read).
\<close>

theorem write_ndArch_length_counterexample:
  "round_trip Map.empty grid_2x3 [[HNum 4, HNum 9, HNum 11]] (info_example ''irregular'')
     = Inr (grid_2x3, [[HNum 4, HNum 9]],
         \<lparr>filename = Some ''ndArch-T-v0.fits'', class_name = Some ''T'', version = Some ''v0'',
          coeff0 = Some (HNum 3), coeff1 = Some (HNum 1), nwave = Some (HNum 3),
          fluxunit = Some (HStr []), par_names = Some [HStr []], par_units = Some [HStr []],
          par_axistype = Some [''irregular'']\<rparr>) \<and>
   round_trip Map.empty grid_2x3 [[HNum 7]] (info_example ''index'')
     = Inr (grid_2x3, [[HNum 1, HNum 2]],
         \<lparr>filename = Some ''ndArch-T-v0.fits'', class_name = Some ''T'', version = Some ''v0'',
          coeff0 = Some (HNum 3), coeff1 = Some (HNum 1), nwave = Some (HNum 3),
          fluxunit = Some (HStr []), par_names = Some [HStr []], par_units = Some [HStr []],
          par_axistype = Some [''index'']\<rparr>) \<and>
   round_trip Map.empty grid_2x3 [[HNum 4, HNum 9], [HNum 5, HNum 6, HNum 8]] (info_example ''irregular'')
     = Inr (grid_2x3, [[HNum 4, HNum 9]],
         \<lparr>filename = Some ''ndArch-T-v0.fits'', class_name = Some ''T'', version = Some ''v0'',
          coeff0 = Some (HNum 3), coeff1 = Some (HNum 1), nwave = Some (HNum 3),
          fluxunit = Some (HStr []), par_names = Some [HStr []], par_units = Some [HStr []],
          par_axistype = Some [''irregular'']\<rparr>)"
  by (simp add: round_trip_def write_eval read_eval axis_eval grid_2x3_def info_example_def
      strip_def is_space_def)

theorem write_ndArch_short_baseline_witness:
  "0 < length (shape grid_2x3) - 1 \<and>
   par_axistype (info_example ''irregular'') = Some [''irregular''] \<and>
   strip ([''irregular''] ! 0) = ''irregular'' \<and> 0 < shape grid_2x3 ! 0 \<and>
   \<not> (0 < length [[HNum 4]] \<and> shape grid_2x3 ! 0 \<le> length ([[HNum 4]] ! 0)) \<and>
   coeff0 (info_example ''irregular'') \<noteq> None \<and> coeff1 (info_example ''irregular'') \<noteq> None \<and>
   write_ndArch Map.empty grid_2x3 [[HNum 4]] (info_example ''irregular'') = Inl IndexError \<and>
   \<not> isl (write_ndArch Map.empty grid_2x3 [[HNum 4, HNum 9]] (info_example ''irregular'')) \<and>
   write_ndArch Map.empty grid_2x3 [[HNum 4, HNum 9, HNum 11], [HNum 7]] (info_example ''irregular'')
     = write_ndArch Map.empty grid_2x3 [[HNum 4, HNum 9]] (info_example ''irregular'')"
proof -
  let ?I = "info_example ''irregular''"
  have h: "0 < length (shape grid_2x3) - 1 \<and>
    par_axistype ?I = Some [''irregular''] \<and>
    (strip ([''irregular''] ! 0) = ''irregular'' \<or> strip ([''irregular''] ! 0) = ''labeled''
       \<or> strip ([''irregular''] ! 0) = ''named'') \<and>
    0 < shape grid_2x3 ! 0 \<and>
    \<not> (0 < length [[HNum 4]] \<and> shape grid_2x3 ! 0 \<le> length ([[HNum 4]] ! 0))"
    by (simp add: grid_2x3_def info_example_def)
  have g: "coeff0 ?I \<noteq> None \<and> coeff1 ?I \<noteq> None \<and>
    (\<forall>j < length (shape grid_2x3) - 1. strip ([''irregular''] ! j) = ''regular'' \<longrightarrow> j < length [[HNum 4]]
       \<longrightarrow> (\<forall>s. HStr s \<notin> set ([[HNum 4]] ! j)))"
    by (simp add: grid_2x3_def info_example_def)
  have short: "write_ndArch Map.empty grid_2x3 [[HNum 4]] ?I = Inl IndexError"
    using write_ndArch_short_baseline[of 0 grid_2x3 ?I "[''irregular'']" "[[HNum 4]]" Map.empty]
      h g by blast
  have ok: "\<not> isl (write_ndArch Map.empty grid_2x3 [[HNum 4, HNum 9]] ?I)"
    by (simp add: write_eval axis_eval grid_2x3_def info_example_def strip_def is_space_def)
  then obtain fs' where fs': "write_ndArch Map.empty grid_2x3 [[HNum 4, HNum 9]] ?I = Inr fs'"
    by (cases "write_ndArch Map.empty grid_2x3 [[HNum 4, HNum 9]] ?I") simp_all
  have p: "\<forall>j < length (shape grid_2x3) - 1.
     strip ([''irregular''] ! j) \<in> {''regular'', ''irregular'', ''labeled'', ''named''}
       \<longrightarrow> j < length [[HNum 4, HNum 9]]
       \<longrightarrow> j < length [[HNum 4, HNum 9, HNum 11], [HNum 7]] \<and>
          (\<exists>t. [[HNum 4, HNum 9, HNum 11], [HNum 7]] ! j = [[HNum 4, HNum 9]] ! j @ t)"
    by (simp add: grid_2x3_def)
  have "write_ndArch Map.empty grid_2x3 [[HNum 4, HNum 9, HNum 11], [HNum 7]] ?I = Inr fs'"
    using write_ndArch_short_baseline[of _ grid_2x3 ?I "[''irregular'']" "[[HNum 4, HNum 9]]" Map.empty
        fs' "[[HNum 4, HNum 9, HNum 11], [HNum 7]]"] fs' h p by blast
  then show ?thesis using h g short ok fs' by simp
qed

section \<open>Valid axes\<close>

lemma nth_of_map_upt:
  assumes "b = map f [0..<length b]" "i < length b"
  shows "b ! i = f i"
proof -
  have "map f [0..<length b] ! i = f i" using assms(2) by simp
  then show ?thesis using assms(1) by metis
qed

lemma regular_gridD:
  assumes "regular_grid b"
  obtains x0 x1 where "1 < length b" "b ! 0 = HNum x0" "b ! 1 = HNum x1"
    "b = map (\<lambda>k. HNum (x0 + of_nat k * (x1 - x0))) [0..<length b]"
proof -
  let ?x0 = "the_num (b ! 0)" and ?x1 = "the_num (b ! 1)"
  have l: "2 \<le> length b"
    and e: "b = map (\<lambda>k. HNum (?x0 + of_nat k * (?x1 - ?x0))) [0..<length b]"
    using assms unfolding regular_grid_def by blast+
  have l0: "0 < length b" and l1: "1 < length b" using l by linarith+
  have b0: "b ! 0 = HNum ?x0" using nth_of_map_upt[OF e l0] by simp
  have b1: "b ! 1 = HNum ?x1" using nth_of_map_upt[OF e l1] by simp
  show ?thesis
  proof (rule that[of ?x0 ?x1])
    show "1 < length b" using l by simp
  qed (rule b0 b1 e)+
qed

lemma valid_axis_kinds:
  "valid_axis kind L b \<Longrightarrow>
     kind = ''regular'' \<or> kind = ''irregular'' \<or> kind = ''labeled'' \<or> kind = ''named'' \<or> kind = ''index''"
  unfolding valid_axis_def by (auto split: if_splits)

lemma valid_axis_length: "valid_axis kind L b \<Longrightarrow> length b = L \<and> 0 < L"
  unfolding valid_axis_def by simp

lemma valid_archiveD:
  assumes "valid_archive d B I"
  obtains ks fn cls c0 c1 where "shape d \<noteq> []" "length B = length (shape d) - 1"
    "coeff0 I = Some c0" "coeff1 I = Some c1" "filename I = Some fn" "fn_CLASS fn = Inr cls"
    "par_axistype I = Some ks" "length ks = length (shape d) - 1"
    "\<And>i. i < length (shape d) - 1 \<Longrightarrow> valid_axis (ks ! i) (shape d ! i) (B ! i)"
    "\<And>ns. par_names I = Some ns \<Longrightarrow> length (shape d) - 1 \<le> length ns"
    "\<And>us. par_units I = Some us \<Longrightarrow> length (shape d) - 1 \<le> length us"
  using assms unfolding valid_archive_def
  by (auto simp: list_all_iff split: option.splits sum.splits)

(*APPEND*)

end
